theory Spec2Isabelle
  imports Main "HOL-Library.AList"
begin

section \<open>Data model of the scan engine\<close>

text \<open>
  The engine's \<^verbatim>\<open>Severity\<close> enumeration and the \<^verbatim>\<open>Finding\<close> type
  (\<^verbatim>\<open>types/finding\<close>): a finding has a name, a description, a severity and a
  correlation made of the request id and a list of locations.
\<close>

datatype Severity = INFO | LOW | MEDIUM | HIGH | CRITICAL

record Location =
  loc_start :: nat
  loc_end :: nat
  loc_hint :: "string option"

record Finding =
  finding_name :: string
  finding_description :: string
  severity :: Severity
  correlation_requestID :: string
  correlation_locations :: "Location list"

text \<open>
  Check state and check output are JSON-serialisable values
  (\<^verbatim>\<open>JSONSerializable\<close>).
\<close>

datatype JSON =
    JNull
  | JBool bool
  | JNum int
  | JStr string
  | JArr "JSON list"
  | JObj "(string \<times> JSON) list"

text \<open>
  Requests and responses are objects of the host; the engine and the checks only call
  their getters. \<^verbatim>\<open>getHeader(name)\<close> is \<^verbatim>\<open>string[] | undefined\<close>.
\<close>

record Request =
  getId :: string
  getHost :: string
  getPort :: nat
  getPath :: string
  getQuery :: string
  getMethod :: string

record Response =
  getCode :: nat
  getHeader :: "string \<Rightarrow> string list option"
  getBody :: string

record ScanTarget =
  request :: Request
  response :: "Response option"

record ScanConfig =
  aggressivity :: nat
  severities :: "Severity list"
  inScopeOnly :: bool
  concurrentTargets :: nat
  concurrentChecks :: nat
  concurrentRequests :: nat
  requestsDelayMs :: nat
  scanTimeout :: nat
  checkTimeout :: nat

section \<open>JavaScript string operations used by the checks\<close>

text \<open>
  Strings are lists of code units below 256. \<^verbatim>\<open>trim\<close> and the regular
  expression class \<^verbatim>\<open>\s\<close> agree on white space; in this range it is TAB, LF,
  VT, FF, CR, space and the no-break space.
\<close>

definition isWhiteSpace :: "char \<Rightarrow> bool" where
  "isWhiteSpace c = (c \<in> set [CHR 0x09, CHR 0x0A, CHR 0x0B, CHR 0x0C, CHR 0x0D, CHR 0x20, CHR 0xA0])"

definition trim :: "string \<Rightarrow> string" where
  "trim s = rev (dropWhile isWhiteSpace (rev (dropWhile isWhiteSpace s)))"

text \<open>\<^verbatim>\<open>s.split(sep)\<close> for a one-character separator: the empty string gives \<^verbatim>\<open>[""]\<close>.\<close>

primrec split_char :: "char \<Rightarrow> string \<Rightarrow> string list" where
  "split_char sep [] = [[]]"
| "split_char sep (c # cs) =
     (if c = sep then [] # split_char sep cs
      else (case split_char sep cs of [] \<Rightarrow> [[c]] | w # ws \<Rightarrow> (c # w) # ws))"

text \<open>\<^verbatim>\<open>s.split(/\s+/)\<close>: the separators are the maximal runs of white space.\<close>

function split_ws :: "string \<Rightarrow> string list" where
  "split_ws [] = [[]]"
| "split_ws (c # cs) =
     (if isWhiteSpace c then [] # split_ws (dropWhile isWhiteSpace cs)
      else (case split_ws cs of [] \<Rightarrow> [[c]] | w # ws \<Rightarrow> (c # w) # ws))"
  by pat_completeness auto
termination
  by (relation "measure length") (auto simp: length_dropWhile_le le_imp_less_Suc)

definition startsWith :: "string \<Rightarrow> string \<Rightarrow> bool" where
  "startsWith s p = (take (length p) s = p)"

text \<open>\<^verbatim>\<open>s.includes(sub)\<close>: \<^verbatim>\<open>sub\<close> occurs in \<^verbatim>\<open>s\<close> as a substring.\<close>

fun includes_str :: "string \<Rightarrow> string \<Rightarrow> bool" where
  "includes_str [] sub = (sub = [])"
| "includes_str (c # cs) sub = (startsWith (c # cs) sub \<or> includes_str cs sub)"

text \<open>\<^verbatim>\<open>xs.join(sep)\<close>.\<close>

fun join :: "string \<Rightarrow> string list \<Rightarrow> string" where
  "join sep [] = []"
| "join sep [x] = x"
| "join sep (x # y # ys) = x @ sep @ join sep (y # ys)"

text \<open>\<^verbatim>\<open>xs.find(p)\<close>: the first element satisfying \<^verbatim>\<open>p\<close>, or \<^verbatim>\<open>undefined\<close>.\<close>

abbreviation js_find :: "('a \<Rightarrow> bool) \<Rightarrow> 'a list \<Rightarrow> 'a option" where
  "js_find p xs \<equiv> List.find p xs"

section \<open>The Content Security Policy parser\<close>

record CSPDirective =
  directive_name :: string
  directive_values :: "string list"

record ParsedCSP =
  directives :: "CSPDirective list"
  raw :: string

text \<open>
  One directive string (trimmed, not empty) is split at white space; the first part is the
  name, the remaining non-empty parts are the values. \<^verbatim>\<open>split\<close> never returns an
  empty array, so the \<^verbatim>\<open>continue\<close> of the source is the \<open>[]\<close> case here.
\<close>

definition parseDirective :: "string \<Rightarrow> CSPDirective option" where
  "parseDirective directiveString =
     (case split_ws directiveString of
        [] \<Rightarrow> None
      | p # ps \<Rightarrow> Some \<lparr> directive_name = trim p,
                        directive_values = filter (\<lambda>v. v \<noteq> []) (map trim ps) \<rparr>)"

definition CSPParser_parse :: "string \<Rightarrow> ParsedCSP" where
  "CSPParser_parse cspHeader =
     (if cspHeader = [] \<or> trim cspHeader = [] then \<lparr> directives = [], raw = cspHeader \<rparr>
      else
        let directiveStrings = filter (\<lambda>d. d \<noteq> []) (map trim (split_char CHR '';'' cspHeader))
        in \<lparr> directives = List.map_filter parseDirective directiveStrings, raw = cspHeader \<rparr>)"

section \<open>Checks and check tasks\<close>

text \<open>
  Modelled from the spec: the module \<^verbatim>\<open>core/errors\<close> is missing. The codes are the
  error taxonomy of the specification (section 7).
\<close>

datatype ScanRunnableErrorCode =
    REQUEST_NOT_FOUND
  | UNKNOWN_DEPENDENCY
  | CYCLIC_DEPENDENCIES
  | CHECK_TIMEOUT
  | UNKNOWN_CHECK_ERROR
  | SCAN_ALREADY_RUNNING

datatype InterruptReason = Cancelled | Timeout

text \<open>
  Exceptions that leave a function of the engine. \<open>CycleDetected\<close> is the failure of the
  external sort on a cyclic graph, \<open>PromisePoolError\<close> the error with which the pool
  rejects a task whose timer has fired.
\<close>

datatype Exn =
    Error string
  | ScanRunnableError string ScanRunnableErrorCode
  | ScanRunnableInterruptedError InterruptReason
  | CycleDetected
  | PromisePoolError string

text \<open>
  What a step of a check may throw, as far as the \<^verbatim>\<open>catch\<close> of the interpreter tells
  the values apart: an instance of \<^verbatim>\<open>ScanRunnableError\<close> (message and code), any other
  \<^verbatim>\<open>Error\<close> (message), or a value that is no \<^verbatim>\<open>Error\<close>.
\<close>

datatype Thrown =
    ThrownScanRunnableError string ScanRunnableErrorCode
  | ThrownError string
  | ThrownValue

datatype CheckType = type_passive | type_active

text \<open>
  Modelled from the spec: the declaration of \<^verbatim>\<open>CheckMetadata\<close> (\<^verbatim>\<open>types/check\<close>) is
  missing. The fields are those of the specification's data model; \<^verbatim>\<open>skipIfFoundBy\<close>,
  when set, holds the id of a check.
\<close>

record CheckMetadata =
  check_id :: string
  check_name :: string
  check_description :: string
  check_type :: CheckType
  tags :: "string list"
  check_severities :: "Severity list"
  check_aggressivity :: "(nat \<times> nat) option"
  minAggressivity :: "nat option"
  dependsOn :: "string list option"
  skipIfFoundBy :: "string option"

text \<open>
  The context a step receives. \<^verbatim>\<open>runtime.dependencies.get\<close> reads the runner's map of
  dependency outputs; the host SDK and the HTML cache are left out.
\<close>

record RuntimeContext =
  target :: ScanTarget
  config :: ScanConfig
  dependencies_get :: "string \<Rightarrow> JSON option"

text \<open>
  A step returns \<^verbatim>\<open>done({state?, findings?, output?})\<close> or
  \<^verbatim>\<open>continueWith({nextStep, state, findings?})\<close>, or throws.
\<close>

datatype StepAction =
    DoneAction "JSON option" "Finding list option" "JSON option"
  | ContinueWith string JSON "Finding list option"

type_synonym StepFn = "JSON \<Rightarrow> RuntimeContext \<Rightarrow> Thrown + StepAction"

record CheckDefinition =
  metadata :: CheckMetadata
  initState :: JSON
  check_when :: "(ScanTarget \<Rightarrow> bool) option"
  dedupeKey :: "(ScanTarget \<Rightarrow> string) option"
  steps :: "(string \<times> StepFn) list"

datatype StepStatus = status_done | status_continue

record StepResult =
  status :: StepStatus
  findings :: "Finding list option"

text \<open>
  Modelled from the spec: \<^verbatim>\<open>defineCheck\<close> and the task it creates are missing. A task is
  the explicit state object of the design notes: the check, the target and configuration
  of its context, the current step name, the state and the output. The first registered
  step is the first to run.
\<close>

record CheckTask =
  task_check :: CheckDefinition
  task_target :: ScanTarget
  task_config :: ScanConfig
  currentStepName :: "string option"
  currentState :: JSON
  taskOutput :: "JSON option"

definition create :: "CheckDefinition \<Rightarrow> ScanTarget \<Rightarrow> ScanConfig \<Rightarrow> CheckTask" where
  "create check tgt cfg =
     \<lparr> task_check = check, task_target = tgt, task_config = cfg,
       currentStepName = (case steps check of [] \<Rightarrow> None | (n, _) # _ \<Rightarrow> Some n),
       currentState = initState check, taskOutput = None \<rparr>"

definition task_tick :: "(string \<Rightarrow> JSON option) \<Rightarrow> CheckTask \<Rightarrow> (Thrown + StepResult) \<times> CheckTask" where
  "task_tick deps task =
     (case currentStepName task of
        None \<Rightarrow> (Inl (ThrownError ''No current step''), task)
      | Some n \<Rightarrow>
          (case map_of (steps (task_check task)) n of
             None \<Rightarrow> (Inl (ThrownError ''Step not found''), task)
           | Some f \<Rightarrow>
               (case f (currentState task)
                       \<lparr> target = task_target task, config = task_config task,
                         dependencies_get = deps \<rparr> of
                  Inl e \<Rightarrow> (Inl e, task)
                | Inr (DoneAction st fs out) \<Rightarrow>
                    (Inr \<lparr> status = status_done, findings = fs \<rparr>,
                     task \<lparr> currentState := (case st of None \<Rightarrow> currentState task | Some s \<Rightarrow> s),
                            taskOutput := out \<rparr>)
                | Inr (ContinueWith nxt st fs) \<Rightarrow>
                    (Inr \<lparr> status = status_continue, findings = fs \<rparr>,
                     task \<lparr> currentStepName := Some nxt, currentState := st \<rparr>))))"

section \<open>The runner's state\<close>

datatype StepOutcome = result_done | result_continue string

record StepExecutionRecord =
  stepName :: string
  stateBefore :: JSON
  stateAfter :: JSON
  step_findings :: "Finding list"
  step_result :: StepOutcome

datatype RecordStatus =
    completed "JSON option"
  | failed ScanRunnableErrorCode string

record CheckExecutionRecord =
  record_checkId :: string
  record_targetRequestId :: string
  record_steps :: "StepExecutionRecord list"
  record_status :: RecordStatus

record ActiveRecord =
  active_checkId :: string
  active_targetRequestId :: string
  active_steps :: "StepExecutionRecord list"

datatype ScanEvent =
    scan_started
  | scan_finished
  | scan_interrupted InterruptReason
  | scan_check_started string string
  | scan_check_finished string string
  | scan_check_failed string string ScanRunnableErrorCode string
  | scan_finding string string Finding

text \<open>What \<^verbatim>\<open>run\<close> resolves with.\<close>

datatype ScanResult =
    Finished "Finding list"
  | Interrupted InterruptReason "Finding list"
  | ErrorResult string

text \<open>
  The variables \<^verbatim>\<open>createRunnable\<close> closes over. The \<^verbatim>\<open>Map\<close>s of findings keeps its
  insertion order (the result lists its values in that order), so it is an association
  list. The dedupe index is a \<^verbatim>\<open>Map\<close> object whose values are \<^verbatim>\<open>Set\<close> objects, both
  mutated in place and both reachable through more than one reference (the runner's
  variable, the map handed to \<^verbatim>\<open>externalDedupeKeys\<close>, the estimator's snapshot), so they
  live in a store: \<open>mapStore\<close> and \<open>setStore\<close> give the contents of the object at a
  reference, \<open>nextRef\<close> is the next unused reference, \<open>dedupeKeys\<close> is the reference the
  runner's variable holds. \<open>events\<close> is the log of emitted events, \<open>polls\<close> counts the
  suspensions of the scan at which a call from outside can arrive.

  Two promises are part of the state. \<open>settled\<close> is the promise \<^verbatim>\<open>run\<close> returns: it
  holds the first value that promise was settled with, by the scan timer or by the scan
  itself, and nothing while it is pending. \<open>taskTimedOut\<close> is the race of the running
  task against its timer in the pool of checks: it holds the message of the pool's error
  once the timer has won.
\<close>

type_synonym ref = nat

record Runner =
  batches :: "CheckDefinition list list"
  runner_config :: ScanConfig
  findings_map :: "(string \<times> Finding list) list"
  dependencies :: "string \<Rightarrow> JSON option"
  dedupeKeys :: ref
  mapStore :: "ref \<Rightarrow> (string \<times> ref) list"
  setStore :: "ref \<Rightarrow> string list"
  nextRef :: ref
  interruptReason :: "InterruptReason option"
  hasRun :: bool
  executionHistory :: "CheckExecutionRecord list"
  activeCheckRecords :: "string \<Rightarrow> ActiveRecord option"
  events :: "ScanEvent list"
  polls :: nat
  settled :: "ScanResult option"
  taskTimedOut :: "string option"

text \<open>
  A call that arrives from outside while the scan is suspended and cancels something: a
  call of \<^verbatim>\<open>cancel(reason)\<close>; the callback of the timer \<^verbatim>\<open>run\<close> sets when
  \<^verbatim>\<open>scanTimeout\<close> is positive; the callback of the timer the pool of checks sets for
  the running task (\<^verbatim>\<open>withTaskTimeout\<close>), which rejects the task with the pool's
  error, whose message the package makes.
\<close>

datatype CancelCall =
    CancelScan InterruptReason
  | ScanTimeout
  | TaskTimeout string

text \<open>
  The host: \<^verbatim>\<open>sdk.requests.get\<close>, and the calls that arrive while the scan is
  suspended. The scan is suspended at \<^verbatim>\<open>await task.tick()\<close> in a tick and at
  \<^verbatim>\<open>await sdk.requests.get(requestID)\<close> for a target; every other \<^verbatim>\<open>await\<close> of the
  runner waits for a promise of the runner itself. \<open>cancelCalls h n\<close> is the call that
  arrives during the \<open>n\<close>-th suspension.
\<close>

record Host =
  requests_get :: "string \<Rightarrow> ScanTarget option"
  cancelCalls :: "nat \<Rightarrow> CancelCall option"

definition emit :: "ScanEvent \<Rightarrow> Runner \<Rightarrow> Runner" where
  "emit e r = r \<lparr> events := events r @ [e] \<rparr>"

definition cancel :: "InterruptReason \<Rightarrow> Runner \<Rightarrow> Runner" where
  "cancel reason r =
     (if interruptReason r \<noteq> None \<or> \<not> hasRun r then r
      else r \<lparr> interruptReason := Some reason \<rparr>)"

text \<open>\<^verbatim>\<open>getInterruptReason: () => interruptReason\<close>.\<close>

definition getInterruptReason :: "Runner \<Rightarrow> InterruptReason option" where
  "getInterruptReason r = interruptReason r"

text \<open>\<^verbatim>\<open>Array.from(findings.values()).flat()\<close>.\<close>

definition flatFindings :: "Runner \<Rightarrow> Finding list" where
  "flatFindings r = concat (map snd (findings_map r))"

text \<open>A promise keeps the first value it is settled with.\<close>

definition settle :: "ScanResult \<Rightarrow> Runner \<Rightarrow> Runner" where
  "settle res r = (case settled r of None \<Rightarrow> r \<lparr> settled := Some res \<rparr> | Some first \<Rightarrow> r)"

text \<open>
  The callback of the scan timer, which exists once \<^verbatim>\<open>run\<close> has started a scan with a
  positive \<^verbatim>\<open>scanTimeout\<close>: it sets the interrupt flag unless it is set, and resolves
  the time-out promise, one side of the race \<^verbatim>\<open>run\<close> returns, with the findings
  stored at that moment. The scan itself goes on until it reads the flag.
\<close>

definition scanTimerCallback :: "Runner \<Rightarrow> Runner" where
  "scanTimerCallback r =
     (if scanTimeout (runner_config r) = 0 \<or> \<not> hasRun r then r
      else settle (Interrupted Timeout (flatFindings r))
             (if interruptReason r = None then r \<lparr> interruptReason := Some Timeout \<rparr> else r))"

text \<open>
  The callback of the timer of the running task, which fires once. The task's race is
  lost: the error handler of the pool throws the pool's error again, the task-finished
  handler runs, the pool's promise is rejected and with it \<^verbatim>\<open>processBatch\<close>,
  \<^verbatim>\<open>processTarget\<close> and the pool of targets, whose error handler throws the error
  again; the \<^verbatim>\<open>catch\<close> of \<^verbatim>\<open>runScan\<close> returns kind Error with the message and its
  \<^verbatim>\<open>finally\<close> emits \<^verbatim>\<open>scan:finished\<close>. All of this happens in the turn of the timer,
  with one target and one check at a time; the callback of the task itself is not
  stopped and goes on in the background.
\<close>

definition taskTimerCallback :: "string \<Rightarrow> string \<Rightarrow> string \<Rightarrow> Runner \<Rightarrow> Runner" where
  "taskTimerCallback cid tid message r =
     (case taskTimedOut r of
        Some earlier \<Rightarrow> r
      | None \<Rightarrow>
          emit scan_finished
            (settle (ErrorResult message)
               (emit (scan_check_finished cid tid) (r \<lparr> taskTimedOut := Some message \<rparr>))))"

text \<open>
  A suspension of the scan: the call that arrives, if any, is run. \<open>running\<close> is the
  task whose tick is suspended, if the suspension is one of a tick; the task is made from
  the context of its batch, so the target of the task is the target of the handlers.
\<close>

definition suspend :: "Host \<Rightarrow> CheckTask option \<Rightarrow> Runner \<Rightarrow> Runner" where
  "suspend host running r =
     (case cancelCalls host (polls r) of
        None \<Rightarrow> r
      | Some (CancelScan reason) \<Rightarrow> cancel reason r
      | Some ScanTimeout \<Rightarrow> scanTimerCallback r
      | Some (TaskTimeout message) \<Rightarrow>
          (case running of
             None \<Rightarrow> r
           | Some task \<Rightarrow>
               taskTimerCallback (check_id (metadata (task_check task)))
                 (getId (request (task_target task))) message r))
       \<lparr> polls := polls r + 1 \<rparr>"

definition activeKey :: "string \<Rightarrow> string \<Rightarrow> string" where
  "activeKey cid tid = cid @ ''-'' @ tid"

definition recordStepExecution :: "string \<Rightarrow> string \<Rightarrow> StepExecutionRecord \<Rightarrow> Runner \<Rightarrow> Runner" where
  "recordStepExecution cid tid record r =
     (case activeCheckRecords r (activeKey cid tid) of
        None \<Rightarrow> r
      | Some activeRecord \<Rightarrow>
          r \<lparr> activeCheckRecords := (activeCheckRecords r)
                (activeKey cid tid \<mapsto> activeRecord \<lparr> active_steps := active_steps activeRecord @ [record] \<rparr>) \<rparr>)"

section \<open>The task interpreter\<close>

datatype TaskExecutionResult =
    Result StepStatus "Finding list option" "JSON option"
  | Failed "Finding list option" ScanRunnableErrorCode string

fun result_findings :: "TaskExecutionResult \<Rightarrow> Finding list option" where
  "result_findings (Result _ fs _) = fs"
| "result_findings (Failed fs _ _) = fs"

definition emitFindings :: "string \<Rightarrow> string \<Rightarrow> Finding list \<Rightarrow> Runner \<Rightarrow> Runner" where
  "emitFindings tid cid fs r = fold (\<lambda>finding. emit (scan_finding tid cid finding)) fs r"

text \<open>
  One tick. The interrupt flag is read first, outside the \<^verbatim>\<open>try\<close>: the interrupted
  error leaves the function. Then the tick is suspended at \<^verbatim>\<open>await task.tick()\<close>.
  Whatever \<^verbatim>\<open>task.tick()\<close> throws is caught and becomes a result with status failed and
  no findings; no step is recorded for it.
\<close>

definition tick :: "Host \<Rightarrow> CheckTask \<Rightarrow> Runner \<Rightarrow> (Exn + TaskExecutionResult) \<times> CheckTask \<times> Runner" where
  "tick host task r =
     (case getInterruptReason r of
        Some reason \<Rightarrow> (Inl (ScanRunnableInterruptedError reason), task, r)
      | None \<Rightarrow>
          (let stateBefore = currentState task;
               currentStepName' = (case currentStepName task of None \<Rightarrow> ''unknown'' | Some n \<Rightarrow> n);
               cid = check_id (metadata (task_check task));
               tid = getId (request (task_target task));
               r1 = suspend host (Some task) r
           in case task_tick (dependencies r1) task of
                (Inl (ThrownScanRunnableError message code), task') \<Rightarrow>
                  (Inr (Failed (Some []) code message), task', r1)
              | (Inl (ThrownError message), task') \<Rightarrow>
                  (Inr (Failed (Some []) UNKNOWN_CHECK_ERROR message), task', r1)
              | (Inl ThrownValue, task') \<Rightarrow>
                  (Inr (Failed (Some []) UNKNOWN_CHECK_ERROR ''Unknown error occurred''), task', r1)
              | (Inr result, task') \<Rightarrow>
                  (let stateAfter = currentState task';
                       nextStepName = currentStepName task';
                       r2 = (case findings result of None \<Rightarrow> r1 | Some fs \<Rightarrow> emitFindings tid cid fs r1);
                       stepRecord =
                         \<lparr> stepName = currentStepName', stateBefore = stateBefore,
                           stateAfter = stateAfter,
                           step_findings = (case findings result of None \<Rightarrow> [] | Some fs \<Rightarrow> fs),
                           step_result =
                             (if status result = status_done then result_done
                              else result_continue (case nextStepName of None \<Rightarrow> ''unknown'' | Some n \<Rightarrow> n)) \<rparr>;
                       r3 = recordStepExecution cid tid stepRecord r2
                   in (Inr (Result (status result) (findings result)
                              (if status result = status_done then taskOutput task' else None)),
                       task', r3))))"

text \<open>
  \<^verbatim>\<open>tickUntilDone\<close>: the \<^verbatim>\<open>while (true)\<close> loop may never end (a check may continue
  for ever), so the loop takes fuel, one unit per tick, and \<open>None\<close> says that the fuel ran
  out before the task returned. \<open>allFindings\<close> is the loop's local accumulator.
\<close>

fun tickLoop :: "nat \<Rightarrow> Host \<Rightarrow> CheckTask \<Rightarrow> Finding list \<Rightarrow> Runner
    \<Rightarrow> ((Exn + TaskExecutionResult) \<times> Runner) option" where
  "tickLoop 0 host task allFindings r = None"
| "tickLoop (Suc fuel) host task allFindings r =
     (case tick host task r of
        (Inl e, task', r') \<Rightarrow> Some (Inl e, r')
      | (Inr result, task', r') \<Rightarrow>
          (let allFindings' = allFindings @ (case result_findings result of None \<Rightarrow> [] | Some fs \<Rightarrow> fs)
           in case result of
                Result status_continue _ _ \<Rightarrow> tickLoop fuel host task' allFindings' r'
              | Result status_done _ out \<Rightarrow> Some (Inr (Result status_done (Some allFindings') out), r')
              | Failed _ code message \<Rightarrow> Some (Inr (Failed (Some allFindings') code message), r')))"

definition tickUntilDone :: "nat \<Rightarrow> Host \<Rightarrow> CheckTask \<Rightarrow> Runner
    \<Rightarrow> ((Exn + TaskExecutionResult) \<times> Runner) option" where
  "tickUntilDone fuel host task r = tickLoop fuel host task [] r"

section \<open>The dedupe index and applicability\<close>

text \<open>
  \<^verbatim>\<open>isCheckApplicable(check, context, targetDedupeKeys)\<close>: severities, aggressivity and
  \<^verbatim>\<open>when\<close> first; then, for a check with a \<^verbatim>\<open>dedupeKey\<close>, the test-and-insert on the
  \<^verbatim>\<open>Map\<close> at \<open>targetDedupeKeys\<close>. A missing entry is created with a new \<^verbatim>\<open>Set\<close>.
\<close>

definition isCheckApplicable :: "CheckDefinition \<Rightarrow> RuntimeContext \<Rightarrow> ref \<Rightarrow> Runner \<Rightarrow> bool \<times> Runner" where
  "isCheckApplicable check context targetDedupeKeys r =
     (if \<not> (\<exists>s \<in> set (check_severities (metadata check)). s \<in> set (severities (config context)))
      then (False, r)
      else if (case minAggressivity (metadata check) of
                 None \<Rightarrow> False | Some m \<Rightarrow> m > aggressivity (config context))
      then (False, r)
      else if (case check_when check of None \<Rightarrow> False | Some w \<Rightarrow> \<not> w (target context))
      then (False, r)
      else
        (case dedupeKey check of
           None \<Rightarrow> (True, r)
         | Some keyOf \<Rightarrow>
             (let checkId = check_id (metadata check);
                  key = keyOf (target context);
                  (checkCache, r1) =
                     (case map_of (mapStore r targetDedupeKeys) checkId of
                        Some c \<Rightarrow> (c, r)
                      | None \<Rightarrow>
                          (nextRef r,
                           r \<lparr> setStore := (setStore r)(nextRef r := []),
                               mapStore := (mapStore r)
                                 (targetDedupeKeys := mapStore r targetDedupeKeys @ [(checkId, nextRef r)]),
                               nextRef := nextRef r + 1 \<rparr>))
              in if key \<in> set (setStore r1 checkCache) then (False, r1)
                 else (True, r1 \<lparr> setStore := (setStore r1)
                                      (checkCache := setStore r1 checkCache @ [key]) \<rparr>))))"

text \<open>\<^verbatim>\<open>batch.filter((check) => isCheckApplicable(check, context, keys))\<close>, in order.\<close>

fun filterApplicable :: "CheckDefinition list \<Rightarrow> RuntimeContext \<Rightarrow> ref \<Rightarrow> Runner
    \<Rightarrow> CheckDefinition list \<times> Runner" where
  "filterApplicable [] context keys r = ([], r)"
| "filterApplicable (check # rest) context keys r =
     (case isCheckApplicable check context keys r of
        (b, r1) \<Rightarrow>
          (case filterApplicable rest context keys r1 of
             (kept, r2) \<Rightarrow> ((if b then check # kept else kept), r2)))"

text \<open>
  \<^verbatim>\<open>createDedupeKeysSnapshot\<close>: a new \<^verbatim>\<open>Map\<close> with, for every entry of the runner's
  index, a new \<^verbatim>\<open>Set\<close> holding the same keys.
\<close>

fun copyEntries :: "(string \<times> ref) list \<Rightarrow> ref \<Rightarrow> Runner \<Rightarrow> Runner" where
  "copyEntries [] snapshot r = r"
| "copyEntries ((checkId, keySet) # rest) snapshot r =
     copyEntries rest snapshot
       (r \<lparr> setStore := (setStore r)(nextRef r := setStore r keySet),
           mapStore := (mapStore r)(snapshot := AList.update checkId (nextRef r) (mapStore r snapshot)),
           nextRef := nextRef r + 1 \<rparr>)"

definition createDedupeKeysSnapshot :: "Runner \<Rightarrow> ref \<times> Runner" where
  "createDedupeKeysSnapshot r =
     (let snapshot = nextRef r;
          r1 = r \<lparr> mapStore := (mapStore r)(snapshot := []), nextRef := nextRef r + 1 \<rparr>
      in (snapshot, copyEntries (mapStore r (dedupeKeys r)) snapshot r1))"

definition externalDedupeKeys :: "ref \<Rightarrow> Runner \<Rightarrow> Exn + Runner" where
  "externalDedupeKeys ext r =
     (if hasRun r
      then Inl (ScanRunnableError ''Cannot set dedupe keys after scan has started'' SCAN_ALREADY_RUNNING)
      else Inr (r \<lparr> dedupeKeys := ext \<rparr>))"

text \<open>The index at \<open>keys\<close> holds the key for the check id: the pair has been claimed.\<close>

definition claimed :: "Runner \<Rightarrow> ref \<Rightarrow> string \<Rightarrow> string \<Rightarrow> bool" where
  "claimed r keys cid key =
     (case map_of (mapStore r keys) cid of None \<Rightarrow> False | Some c \<Rightarrow> key \<in> set (setStore r c))"

definition createRuntimeContext :: "ScanTarget \<Rightarrow> Runner \<Rightarrow> RuntimeContext" where
  "createRuntimeContext tgt r =
     \<lparr> target = tgt, config = runner_config r, dependencies_get = dependencies r \<rparr>"

section \<open>The batch executor\<close>

text \<open>
  Modelled from the spec: the pool of the external package \<^verbatim>\<open>@supercharge/promise-pool\<close>
  is missing; the source shows how it is configured. This is the pool with a concurrency
  of one, \<^verbatim>\<open>concurrentChecks = 1\<close>: the tasks run one after the other, in order, each
  between the task-started and the task-finished handler. With a higher concurrency the
  pool interleaves the ticks of several tasks; \<open>run\<close> below gives no result for such a
  configuration.

  The pool sets the timer of a task when it starts it (\<^verbatim>\<open>withTaskTimeout\<close>), so the
  race of the task against its timer is open again in the state the task starts from.
\<close>

definition onTaskStarted :: "CheckTask \<Rightarrow> RuntimeContext \<Rightarrow> Runner \<Rightarrow> Runner" where
  "onTaskStarted task context r =
     (let cid = check_id (metadata (task_check task));
          tid = getId (request (target context))
      in emit (scan_check_started cid tid)
           (r \<lparr> activeCheckRecords := (activeCheckRecords r)
                  (activeKey cid tid \<mapsto>
                     \<lparr> active_checkId = cid, active_targetRequestId = tid, active_steps = [] \<rparr>),
                taskTimedOut := None \<rparr>))"

definition onTaskFinished :: "CheckTask \<Rightarrow> RuntimeContext \<Rightarrow> Runner \<Rightarrow> Runner" where
  "onTaskFinished task context r =
     emit (scan_check_finished (check_id (metadata (task_check task)))
             (getId (request (target context)))) r"

text \<open>
  Moving the active record of a task into the execution history, with the given status;
  nothing happens when there is no active record under the key.
\<close>

definition pushCheckRecord :: "string \<Rightarrow> string \<Rightarrow> RecordStatus \<Rightarrow> Runner \<Rightarrow> Runner" where
  "pushCheckRecord cid tid st r =
     (case activeCheckRecords r (activeKey cid tid) of
        None \<Rightarrow> r
      | Some activeRecord \<Rightarrow>
          r \<lparr> executionHistory := executionHistory r @
                  [\<lparr> record_checkId = active_checkId activeRecord,
                     record_targetRequestId = active_targetRequestId activeRecord,
                     record_steps = active_steps activeRecord,
                     record_status = st \<rparr>],
              activeCheckRecords := (activeCheckRecords r)(activeKey cid tid := None) \<rparr>)"

text \<open>\<^verbatim>\<open>findings.get(id) || []\<close>.\<close>

definition findings_get :: "Runner \<Rightarrow> string \<Rightarrow> Finding list" where
  "findings_get r cid = (case map_of (findings_map r) cid of None \<Rightarrow> [] | Some fs \<Rightarrow> fs)"

text \<open>The truth value JavaScript gives to an optional string: set and not empty.\<close>

definition truthy :: "string option \<Rightarrow> bool" where
  "truthy v = (case v of None \<Rightarrow> False | Some s \<Rightarrow> s \<noteq> [])"

text \<open>
  The function given to \<^verbatim>\<open>process\<close>. The skip test reads the findings stored under the
  id of the task's own check. After the ticks, the findings of the result are appended
  to the findings stored under that id, whatever the status; then a result with status
  done stores the output in \<^verbatim>\<open>dependencies\<close> and pushes a completed record, and a
  result with status failed pushes a failed record and emits \<^verbatim>\<open>scan:check-failed\<close>.
\<close>

definition processTask :: "nat \<Rightarrow> Host \<Rightarrow> RuntimeContext \<Rightarrow> CheckTask \<Rightarrow> Runner
    \<Rightarrow> ((Exn + TaskExecutionResult option) \<times> Runner) option" where
  "processTask fuel host context task r =
     (let cid = check_id (metadata (task_check task));
          tid = getId (request (target context))
      in if truthy (skipIfFoundBy (metadata (task_check task))) \<and> findings_get r cid \<noteq> []
         then Some (Inr None, r)
         else
           (case tickUntilDone fuel host task r of
              None \<Rightarrow> None
            | Some (Inl e, r1) \<Rightarrow> Some (Inl e, r1)
            | Some (Inr result, r1) \<Rightarrow>
                (let r2 = (case result_findings result of
                             None \<Rightarrow> r1
                           | Some fs \<Rightarrow>
                               r1 \<lparr> findings_map :=
                                      AList.update cid (findings_get r1 cid @ fs) (findings_map r1) \<rparr>);
                     r3 = (case result of
                             Result status_done _ out \<Rightarrow>
                               pushCheckRecord cid tid (completed out)
                                 (r2 \<lparr> dependencies := (dependencies r2)(cid := out) \<rparr>)
                           | Result status_continue _ _ \<Rightarrow> r2
                           | Failed _ code message \<Rightarrow>
                               emit (scan_check_failed cid tid code message)
                                 (pushCheckRecord cid tid (failed code message) r2))
                 in Some (Inr (Some result), r3))))"

text \<open>
  The pool of checks. When the timer of the task has won the race, the pool was rejected
  in the turn of the timer (the task-finished handler ran there): what is left is the
  error. Otherwise the error handler is called with what the callback throws: for the
  interrupted error it stops the pool and returns, so the pool ends without an error and
  without starting the remaining tasks; any other error it throws again, and the pool
  is rejected with it.
\<close>

fun runPool :: "nat \<Rightarrow> Host \<Rightarrow> RuntimeContext \<Rightarrow> CheckTask list \<Rightarrow> Runner
    \<Rightarrow> ((Exn + unit) \<times> Runner) option" where
  "runPool fuel host context [] r = Some (Inr (), r)"
| "runPool fuel host context (task # rest) r =
     (case processTask fuel host context task (onTaskStarted task context r) of
        None \<Rightarrow> None
      | Some (x, r1) \<Rightarrow>
          (case taskTimedOut r1 of
             Some message \<Rightarrow> Some (Inl (PromisePoolError message), r1)
           | None \<Rightarrow>
               (case x of
                  Inl (ScanRunnableInterruptedError reason) \<Rightarrow>
                    Some (Inr (), onTaskFinished task context r1)
                | Inl e \<Rightarrow> Some (Inl e, onTaskFinished task context r1)
                | Inr result \<Rightarrow> runPool fuel host context rest (onTaskFinished task context r1))))"

text \<open>
  \<^verbatim>\<open>processBatch\<close>. The pool has an error handler, so it collects no errors and the
  final \<^verbatim>\<open>throw new ScanRuntimeError(errors)\<close> is never reached.
\<close>

definition processBatch :: "nat \<Rightarrow> Host \<Rightarrow> CheckDefinition list \<Rightarrow> RuntimeContext \<Rightarrow> Runner
    \<Rightarrow> ((Exn + unit) \<times> Runner) option" where
  "processBatch fuel host batch context r =
     (case filterApplicable batch context (dedupeKeys r) r of
        (applicable, r1) \<Rightarrow>
          runPool fuel host context
            (map (\<lambda>check. create check (target context) (config context)) applicable) r1)"

section \<open>The scan runner\<close>

datatype ScanEstimateResult =
    EstimateSuccess nat
  | EstimateError string

text \<open>
  The loop over the batches of the plan, for one target; the interrupt flag is read at
  the head of the loop.
\<close>

fun processBatches :: "nat \<Rightarrow> Host \<Rightarrow> RuntimeContext \<Rightarrow> CheckDefinition list list \<Rightarrow> Runner
    \<Rightarrow> ((Exn + unit) \<times> Runner) option" where
  "processBatches fuel host context [] r = Some (Inr (), r)"
| "processBatches fuel host context (batch # rest) r =
     (case getInterruptReason r of
        Some reason \<Rightarrow> Some (Inl (ScanRunnableInterruptedError reason), r)
      | None \<Rightarrow>
          (case processBatch fuel host batch context r of
             None \<Rightarrow> None
           | Some (Inl e, r2) \<Rightarrow> Some (Inl e, r2)
           | Some (Inr _, r2) \<Rightarrow> processBatches fuel host context rest r2))"

text \<open>\<^verbatim>\<open>processTarget\<close>, suspended first at \<^verbatim>\<open>await sdk.requests.get(requestID)\<close>.\<close>

definition processTarget :: "nat \<Rightarrow> Host \<Rightarrow> string \<Rightarrow> Runner \<Rightarrow> ((Exn + unit) \<times> Runner) option" where
  "processTarget fuel host requestID r =
     (let r0 = suspend host None r
      in case requests_get host requestID of
           None \<Rightarrow>
             Some (Inl (ScanRunnableError (''Request '' @ requestID @ '' not found'') REQUEST_NOT_FOUND), r0)
         | Some tgt \<Rightarrow> processBatches fuel host (createRuntimeContext tgt r0) (batches r0) r0)"

text \<open>
  The pool over the targets with a concurrency of one, \<^verbatim>\<open>concurrentTargets = 1\<close>: one
  target after the other. Its error handler is the one of the pool of checks: the
  interrupted error stops the pool and is not passed on, so the pool ends without an
  error; any other error is thrown again and the pool is rejected with it. The pool
  sets no timer.
\<close>

fun processTargets :: "nat \<Rightarrow> Host \<Rightarrow> string list \<Rightarrow> Runner \<Rightarrow> ((Exn + unit) \<times> Runner) option" where
  "processTargets fuel host [] r = Some (Inr (), r)"
| "processTargets fuel host (requestID # rest) r =
     (case processTarget fuel host requestID r of
        None \<Rightarrow> None
      | Some (Inl (ScanRunnableInterruptedError reason), r1) \<Rightarrow> Some (Inr (), r1)
      | Some (Inl e, r1) \<Rightarrow> Some (Inl e, r1)
      | Some (Inr _, r1) \<Rightarrow> processTargets fuel host rest r1)"

text \<open>\<^verbatim>\<open>error instanceof Error ? error.message : "Unknown error"\<close>.\<close>

fun exn_message :: "Exn \<Rightarrow> string" where
  "exn_message (Error m) = m"
| "exn_message (ScanRunnableError m _) = m"
| "exn_message (PromisePoolError m) = m"
| "exn_message _ = ''Unknown error''"

text \<open>
  \<^verbatim>\<open>runScan\<close>. The pool of targets never passes the interrupted error on, so the
  branch of the \<^verbatim>\<open>catch\<close> that returns kind Interrupted is there but is not taken.
  When the pool was rejected by the timer of a task, the \<^verbatim>\<open>catch\<close> and the
  \<^verbatim>\<open>finally\<close> ran in the turn of that timer (\<open>taskTimerCallback\<close>), and what the
  abandoned task did afterwards is in the state.
\<close>

definition runScan :: "nat \<Rightarrow> Host \<Rightarrow> string list \<Rightarrow> Runner \<Rightarrow> (ScanResult \<times> Runner) option" where
  "runScan fuel host requestIDs r =
     (case processTargets fuel host requestIDs (emit scan_started (r \<lparr> hasRun := True \<rparr>)) of
        None \<Rightarrow> None
      | Some (Inr _, r1) \<Rightarrow> Some (Finished (flatFindings r1), emit scan_finished r1)
      | Some (Inl (ScanRunnableInterruptedError reason), r1) \<Rightarrow>
          Some (Interrupted reason (flatFindings r1),
                emit scan_finished (emit (scan_interrupted reason) r1))
      | Some (Inl (PromisePoolError message), r1) \<Rightarrow> Some (ErrorResult message, r1)
      | Some (Inl e, r1) \<Rightarrow> Some (ErrorResult (exn_message e), emit scan_finished r1))"

text \<open>
  \<^verbatim>\<open>run\<close>. With a positive \<^verbatim>\<open>scanTimeout\<close> the promise returned is the race of
  \<^verbatim>\<open>runScan()\<close> against the time-out promise, otherwise it is \<^verbatim>\<open>runScan()\<close>: in both
  cases it is settled with the first of the values in \<open>settled\<close>, if there is one, and
  with the result of the scan otherwise. The state returned is the one in which the scan
  has come to its end, which after a time-out is later than the moment the promise is
  settled. The pools are those of a configuration with \<^verbatim>\<open>concurrentTargets = 1\<close> and
  \<^verbatim>\<open>concurrentChecks = 1\<close>; for any other configuration there is no result.
\<close>

definition run :: "nat \<Rightarrow> Host \<Rightarrow> string list \<Rightarrow> Runner \<Rightarrow> (ScanResult \<times> Runner) option" where
  "run fuel host requestIDs r =
     (if hasRun r then Some (ErrorResult ''Scan is already running'', r)
      else if concurrentTargets (runner_config r) \<noteq> 1 \<or> concurrentChecks (runner_config r) \<noteq> 1
      then None
      else
        (case runScan fuel host requestIDs (r \<lparr> settled := None \<rparr>) of
           None \<Rightarrow> None
         | Some (res, r1) \<Rightarrow>
             Some ((case settled r1 of None \<Rightarrow> res | Some first \<Rightarrow> first), r1)))"

text \<open>\<^verbatim>\<open>batches.map((batch) => batch.filter(...))\<close> on the snapshot.\<close>

fun filterBatches :: "CheckDefinition list list \<Rightarrow> RuntimeContext \<Rightarrow> ref \<Rightarrow> Runner
    \<Rightarrow> CheckDefinition list list \<times> Runner" where
  "filterBatches [] context keys r = ([], r)"
| "filterBatches (batch # rest) context keys r =
     (case filterApplicable batch context keys r of
        (kept, r1) \<Rightarrow>
          (case filterBatches rest context keys r1 of
             (keptRest, r2) \<Rightarrow> (kept # keptRest, r2)))"

fun estimateLoop :: "Host \<Rightarrow> string list \<Rightarrow> ref \<Rightarrow> nat \<Rightarrow> Runner \<Rightarrow> ScanEstimateResult \<times> Runner" where
  "estimateLoop host [] snapshotDedupeKeys checksTotal r = (EstimateSuccess checksTotal, r)"
| "estimateLoop host (requestID # rest) snapshotDedupeKeys checksTotal r =
     (case requests_get host requestID of
        None \<Rightarrow> (EstimateError (''Request '' @ requestID @ '' not found''), r)
      | Some tgt \<Rightarrow>
          (case filterBatches (batches r) (createRuntimeContext tgt r) snapshotDedupeKeys r of
             (tasks, r1) \<Rightarrow>
               estimateLoop host rest snapshotDedupeKeys (checksTotal + length (concat tasks)) r1))"

definition estimate :: "Host \<Rightarrow> string list \<Rightarrow> Runner \<Rightarrow> ScanEstimateResult \<times> Runner" where
  "estimate host requestIDs r =
     (case createDedupeKeysSnapshot r of
        (snapshotDedupeKeys, r1) \<Rightarrow> estimateLoop host requestIDs snapshotDedupeKeys 0 r1)"

section \<open>The planner\<close>

text \<open>
  The graph handed to the sort: an object whose keys are check ids, each with the array
  of the ids that depend on it, in insertion order.
\<close>

type_synonym DAG = "(string \<times> string list) list"

definition inDegree :: "DAG \<Rightarrow> string \<Rightarrow> nat" where
  "inDegree dag v = length (filter (\<lambda>d. d = v) (concat (map snd dag)))"

definition roots :: "DAG \<Rightarrow> string list" where
  "roots dag = filter (\<lambda>v. inDegree dag v = 0) (map fst dag)"

definition removeNodes :: "string list \<Rightarrow> DAG \<Rightarrow> DAG" where
  "removeNodes vs dag = filter (\<lambda>(v, ds). v \<notin> set vs) dag"

lemma roots_subset: "set (roots dag) \<subseteq> fst ` set dag"
  by (auto simp: roots_def)

lemma removeNodes_shorter:
  assumes "vs \<noteq> []" and "set vs \<subseteq> fst ` set dag"
  shows "length (removeNodes vs dag) < length dag"
proof -
  from assms obtain v ds where "(v, ds) \<in> set dag" and "v \<in> set vs"
    by (cases vs) auto
  then have "(v, ds) \<in> set dag" and "\<not> (\<lambda>(v, ds). v \<notin> set vs) (v, ds)"
    by auto
  then show ?thesis
    unfolding removeNodes_def by (rule length_filter_less)
qed

text \<open>
  Modelled from the spec: \<^verbatim>\<open>batchingToposort\<close> of the external package
  \<^verbatim>\<open>batching-toposort-ts\<close> is missing. Batch 0 is all nodes with in-degree 0; they are
  removed; batch 1 is the new nodes with in-degree 0; and so on. A graph in which nodes
  remain but none has in-degree 0 has a cycle, and the sort fails.
\<close>

function batchingToposort :: "DAG \<Rightarrow> Exn + string list list" where
  "batchingToposort dag =
     (if dag = [] then Inr []
      else if roots dag = [] then Inl CycleDetected
      else (case batchingToposort (removeNodes (roots dag) dag) of
              Inl e \<Rightarrow> Inl e
            | Inr bs \<Rightarrow> Inr (roots dag # bs)))"
  by pat_completeness auto
termination
  by (relation "measure length") (simp_all add: removeNodes_shorter roots_subset)

definition quote :: "string \<Rightarrow> string" where
  "quote s = CHR 0x27 # s @ [CHR 0x27]"

text \<open>The message of the error for an unknown dependency (a template literal).\<close>

definition unknownDependencyMessage :: "string \<Rightarrow> string \<Rightarrow> string" where
  "unknownDependencyMessage cid dependencyId =
     ''Check '' @ quote cid @ '' has unknown dependency '' @ quote dependencyId"

definition checkIds :: "CheckDefinition list \<Rightarrow> string set" where
  "checkIds checks = (\<lambda>check. check_id (metadata check)) ` set checks"

text \<open>\<^verbatim>\<open>new Map(checks.map((check) => [check.metadata.id, check]))\<close>: the last entry of an id wins.\<close>

definition checkMap :: "CheckDefinition list \<Rightarrow> string \<Rightarrow> CheckDefinition option" where
  "checkMap checks = map_of (rev (map (\<lambda>check. (check_id (metadata check), check)) checks))"

text \<open>The first loop: \<^verbatim>\<open>dag[check.metadata.id] = []\<close>.\<close>

definition initDag :: "CheckDefinition list \<Rightarrow> DAG" where
  "initDag checks = fold (\<lambda>check dag. AList.update (check_id (metadata check)) [] dag) checks []"

text \<open>
  The second loop, for one check: every dependency must be the id of a check, or a plain
  \<^verbatim>\<open>Error\<close> is thrown; the check's id is pushed on the dependency's array.
\<close>

fun addDependencies :: "(string \<Rightarrow> CheckDefinition option) \<Rightarrow> string \<Rightarrow> string list \<Rightarrow> DAG \<Rightarrow> Exn + DAG" where
  "addDependencies cm cid [] dag = Inr dag"
| "addDependencies cm cid (dependencyId # rest) dag =
     (if cm dependencyId = None
      then Inl (Error (unknownDependencyMessage cid dependencyId))
      else addDependencies cm cid rest
             (AList.update dependencyId
                ((case map_of dag dependencyId of None \<Rightarrow> [] | Some ds \<Rightarrow> ds) @ [cid]) dag))"

fun addAllDependencies :: "(string \<Rightarrow> CheckDefinition option) \<Rightarrow> CheckDefinition list \<Rightarrow> DAG \<Rightarrow> Exn + DAG" where
  "addAllDependencies cm [] dag = Inr dag"
| "addAllDependencies cm (check # rest) dag =
     (case dependsOn (metadata check) of
        None \<Rightarrow> addAllDependencies cm rest dag
      | Some deps \<Rightarrow>
          (case addDependencies cm (check_id (metadata check)) deps dag of
             Inl e \<Rightarrow> Inl e
           | Inr dag' \<Rightarrow> addAllDependencies cm rest dag'))"

text \<open>The final \<^verbatim>\<open>map\<close> from ids back to checks.\<close>

fun lookupChecks :: "(string \<Rightarrow> CheckDefinition option) \<Rightarrow> string list \<Rightarrow> Exn + CheckDefinition list" where
  "lookupChecks cm [] = Inr []"
| "lookupChecks cm (cid # rest) =
     (case cm cid of
        None \<Rightarrow> Inl (Error (''Check '' @ quote cid @ '' not found in checkMap''))
      | Some check \<Rightarrow>
          (case lookupChecks cm rest of Inl e \<Rightarrow> Inl e | Inr cs \<Rightarrow> Inr (check # cs)))"

fun lookupBatches :: "(string \<Rightarrow> CheckDefinition option) \<Rightarrow> string list list \<Rightarrow> Exn + CheckDefinition list list" where
  "lookupBatches cm [] = Inr []"
| "lookupBatches cm (batch # rest) =
     (case lookupChecks cm batch of
        Inl e \<Rightarrow> Inl e
      | Inr cs \<Rightarrow> (case lookupBatches cm rest of Inl e \<Rightarrow> Inl e | Inr bs \<Rightarrow> Inr (cs # bs)))"

definition getCheckBatches :: "CheckDefinition list \<Rightarrow> Exn + CheckDefinition list list" where
  "getCheckBatches checks =
     (case addAllDependencies (checkMap checks) checks (initDag checks) of
        Inl e \<Rightarrow> Inl e
      | Inr dag \<Rightarrow>
          (case batchingToposort dag of
             Inl e \<Rightarrow> Inl e
           | Inr idBatches \<Rightarrow> lookupBatches (checkMap checks) idBatches))"

text \<open>\<^verbatim>\<open>createRunnable\<close>: the plan is computed first; the state starts empty.\<close>

definition initialRunner :: "CheckDefinition list list \<Rightarrow> ScanConfig \<Rightarrow> Runner" where
  "initialRunner bs cfg =
     \<lparr> batches = bs, runner_config = cfg, findings_map = [],
       dependencies = (\<lambda>_. None), dedupeKeys = 0,
       mapStore = (\<lambda>_. []), setStore = (\<lambda>_. []), nextRef = 1,
       interruptReason = None, hasRun = False, executionHistory = [],
       activeCheckRecords = (\<lambda>_. None), events = [], polls = 0,
       settled = None, taskTimedOut = None \<rparr>"

definition createRunnable :: "CheckDefinition list \<Rightarrow> ScanConfig \<Rightarrow> Exn + Runner" where
  "createRunnable checks cfg =
     (case getCheckBatches checks of
        Inl e \<Rightarrow> Inl e
      | Inr bs \<Rightarrow> Inr (initialRunner bs cfg))"

section \<open>The check \<^verbatim>\<open>csp-untrusted-script\<close>\<close>

text \<open>
  The five findings the step can push share their name and correlation; they differ in
  description and severity.
\<close>

definition untrustedScriptFinding :: "string \<Rightarrow> Severity \<Rightarrow> RuntimeContext \<Rightarrow> Finding" where
  "untrustedScriptFinding descr sev context =
     \<lparr> finding_name = ''Content security policy: allows untrusted script execution'',
       finding_description = descr,
       severity = sev,
       correlation_requestID = getId (request (target context)),
       correlation_locations = [] \<rparr>"

definition unsafeInlineFinding :: "string \<Rightarrow> CSPDirective \<Rightarrow> RuntimeContext \<Rightarrow> Finding" where
  "unsafeInlineFinding cspValue effectiveDirective context =
     untrustedScriptFinding
       (join [CHR 0x0A]
            [''The Content Security Policy allows inline scripts with 'unsafe-inline', which can lead to XSS attacks.'',
             [],
             ''**CSP Header:** `'' @ cspValue @ ''`'',
             [],
             ''**Directive:** `'' @ directive_name effectiveDirective @ ''`'',
             [],
             ''**Unsafe Values:** `'unsafe-inline'`'',
             [],
             ''**Impact:** '',
             ''- XSS attacks can execute malicious inline scripts'',
             ''- Inline event handlers can be exploited'',
             ''- Data exfiltration through malicious scripts'',
             [],
             ''**Recommendation:** Remove 'unsafe-inline' from script-src and use nonces or hashes for inline scripts, or move inline scripts to external files.'']) HIGH context"

definition unsafeEvalFinding :: "string \<Rightarrow> CSPDirective \<Rightarrow> RuntimeContext \<Rightarrow> Finding" where
  "unsafeEvalFinding cspValue effectiveDirective context =
     untrustedScriptFinding
       (join [CHR 0x0A]
            [''The Content Security Policy allows eval() and similar functions with 'unsafe-eval', which can lead to code injection attacks.'',
             [],
             ''**CSP Header:** `'' @ cspValue @ ''`'',
             [],
             ''**Directive:** `'' @ directive_name effectiveDirective @ ''`'',
             [],
             ''**Unsafe Values:** `'unsafe-eval'`'',
             [],
             ''**Impact:** '',
             ''- Code injection attacks can execute arbitrary JavaScript'',
             ''- Dynamic code execution vulnerabilities'',
             ''- Bypass of CSP protections'',
             [],
             ''**Recommendation:** Remove 'unsafe-eval' from script-src unless absolutely necessary for legitimate use cases like templating engines.'']) HIGH context"

definition wildcardFinding :: "string \<Rightarrow> CSPDirective \<Rightarrow> RuntimeContext \<Rightarrow> Finding" where
  "wildcardFinding cspValue effectiveDirective context =
     untrustedScriptFinding
       (join [CHR 0x0A]
            [''The Content Security Policy allows scripts from any source with wildcard (*), which can lead to XSS attacks.'',
             [],
             ''**CSP Header:** `'' @ cspValue @ ''`'',
             [],
             ''**Directive:** `'' @ directive_name effectiveDirective @ ''`'',
             [],
             ''**Unsafe Values:** `*`'',
             [],
             ''**Impact:** '',
             ''- Any external script can be loaded, including malicious ones'',
             ''- XSS attacks can load scripts from any domain'',
             ''- Complete bypass of CSP script restrictions'',
             [],
             ''**Recommendation:** Replace wildcard (*) with specific trusted domains or use 'self' for same-origin resources only.'']) CRITICAL context"

definition unsafeSourcesFinding :: "string \<Rightarrow> CSPDirective \<Rightarrow> string list \<Rightarrow> RuntimeContext \<Rightarrow> Finding" where
  "unsafeSourcesFinding cspValue effectiveDirective unsafeSources context =
     untrustedScriptFinding
       (join [CHR 0x0A]
            [''The Content Security Policy allows scripts from data: and blob: sources, which can lead to XSS attacks.'',
             [],
             ''**CSP Header:** `'' @ cspValue @ ''`'',
             [],
             ''**Directive:** `'' @ directive_name effectiveDirective @ ''`'',
             [],
             ''**Unsafe Sources:** `'' @ join '', '' unsafeSources @ ''`'',
             [],
             ''**Impact:** '',
             ''- Data URLs can contain malicious JavaScript'',
             ''- Blob URLs can be used to inject malicious scripts'',
             ''- XSS attacks can execute arbitrary code'',
             [],
             ''**Recommendation:** Remove data: and blob: sources from script-src unless absolutely necessary for legitimate use cases.'']) HIGH context"

definition httpSourcesFinding :: "string \<Rightarrow> CSPDirective \<Rightarrow> string list \<Rightarrow> RuntimeContext \<Rightarrow> Finding" where
  "httpSourcesFinding cspValue effectiveDirective httpSources context =
     untrustedScriptFinding
       (join [CHR 0x0A]
            [''The Content Security Policy allows scripts from HTTP sources, which can be intercepted and modified.'',
             [],
             ''**CSP Header:** `'' @ cspValue @ ''`'',
             [],
             ''**Directive:** `'' @ directive_name effectiveDirective @ ''`'',
             [],
             ''**HTTP Sources:** `'' @ join '', '' httpSources @ ''`'',
             [],
             ''**Impact:** '',
             ''- HTTP resources can be intercepted and modified by attackers'',
             ''- Man-in-the-middle attacks can inject malicious scripts'',
             ''- Insecure transmission of JavaScript files'',
             [],
             ''**Recommendation:** Use HTTPS sources only or ensure HTTP sources are from trusted, internal networks.'']) MEDIUM context"

text \<open>\<^verbatim>\<open>response.getHeader("content-type")?.[0] ?? ""\<close>.\<close>

definition firstContentType :: "Response \<Rightarrow> string" where
  "firstContentType resp =
     (case getHeader resp ''content-type'' of None \<Rightarrow> [] | Some [] \<Rightarrow> [] | Some (h # _) \<Rightarrow> h)"

text \<open>
  The step \<^verbatim>\<open>checkCspUntrustedScript\<close>. It ends with \<^verbatim>\<open>done({ state })\<close> when there
  is no response, when the first content type does not contain \<^verbatim>\<open>text/html\<close>, when
  there is no policy header and when the policy has neither \<^verbatim>\<open>script-src\<close> nor
  \<^verbatim>\<open>default-src\<close>; otherwise with the findings pushed by the five tests, in order.
\<close>

definition checkCspUntrustedScript :: StepFn where
  "checkCspUntrustedScript state context =
     (case response (target context) of
        None \<Rightarrow> Inr (DoneAction (Some state) None None)
      | Some resp \<Rightarrow>
          if \<not> includes_str (firstContentType resp) ''text/html''
          then Inr (DoneAction (Some state) None None)
          else
            (case getHeader resp ''content-security-policy'' of
               None \<Rightarrow> Inr (DoneAction (Some state) None None)
             | Some [] \<Rightarrow> Inr (DoneAction (Some state) None None)
             | Some (cspValue # _) \<Rightarrow>
                 (let parsedCsp = CSPParser_parse cspValue;
                      scriptSrcDirective =
                        js_find (\<lambda>d. directive_name d = ''script-src'') (directives parsedCsp)
                  in case (case scriptSrcDirective of
                             Some d \<Rightarrow> Some d
                           | None \<Rightarrow> js_find (\<lambda>d. directive_name d = ''default-src'')
                                       (directives parsedCsp)) of
                       None \<Rightarrow> Inr (DoneAction (Some state) None None)
                     | Some effectiveDirective \<Rightarrow>
                         (let vals = directive_values effectiveDirective;
                              unsafeSources =
                                filter (\<lambda>v. startsWith v ''data:'' \<or> startsWith v ''blob:'') vals;
                              httpSources =
                                filter (\<lambda>v. startsWith v ''http:'' \<and> \<not> startsWith v ''https:'') vals
                          in Inr (DoneAction (Some state)
                               (Some
                                  ((if quote ''unsafe-inline'' \<in> set vals
                                    then [unsafeInlineFinding cspValue effectiveDirective context] else []) @
                                   (if quote ''unsafe-eval'' \<in> set vals
                                    then [unsafeEvalFinding cspValue effectiveDirective context] else []) @
                                   (if ''*'' \<in> set vals
                                    then [wildcardFinding cspValue effectiveDirective context] else []) @
                                   (if unsafeSources \<noteq> []
                                    then [unsafeSourcesFinding cspValue effectiveDirective unsafeSources context]
                                    else []) @
                                   (if httpSources \<noteq> []
                                    then [httpSourcesFinding cspValue effectiveDirective httpSources context]
                                    else [])))
                               None)))))"

text \<open>
  The check itself. The builder \<^verbatim>\<open>keyStrategy\<close> that makes its dedupe key is missing,
  so the key function is a parameter.
\<close>

definition cspUntrustedScriptCheck :: "(ScanTarget \<Rightarrow> string) \<Rightarrow> CheckDefinition" where
  "cspUntrustedScriptCheck keyOf =
     \<lparr> metadata =
         \<lparr> check_id = ''csp-untrusted-script'',
           check_name = ''Content security policy: allows untrusted script execution'',
           check_description =
             ''Checks for Content Security Policy directives that allow untrusted script execution, which can lead to XSS attacks'',
           check_type = type_passive,
           tags = [''csp'', ''security-headers'', ''xss'', ''script-src'', ''injection''],
           check_severities = [MEDIUM, HIGH, CRITICAL],
           check_aggressivity = Some (0, 0),
           minAggressivity = None,
           dependsOn = None,
           skipIfFoundBy = None \<rparr>,
       initState = JObj [],
       check_when = Some (\<lambda>tgt. case response tgt of
                                  None \<Rightarrow> False
                                | Some resp \<Rightarrow> includes_str (firstContentType resp) ''text/html''),
       dedupeKey = Some keyOf,
       steps = [(''checkCspUntrustedScript'', checkCspUntrustedScript)] \<rparr>"

section \<open>Counting findings, and what a part of the runner may change\<close>

text \<open>
  The number of findings in the steps of a record, in a whole history, and in the records
  of a history with status completed.
\<close>

definition stepsFindingsCount :: "StepExecutionRecord list \<Rightarrow> nat" where
  "stepsFindingsCount stps = sum_list (map (\<lambda>s. length (step_findings s)) stps)"

definition historyFindingsCount :: "CheckExecutionRecord list \<Rightarrow> nat" where
  "historyFindingsCount h = sum_list (map (\<lambda>rec. stepsFindingsCount (record_steps rec)) h)"



text \<open>The key of a task's active record, made of the task's own check id and target.\<close>

definition taskKey :: "CheckTask \<Rightarrow> string" where
  "taskKey task = activeKey (check_id (metadata (task_check task))) (getId (request (task_target task)))"

text \<open>
  \<open>sameStores r r'\<close>: the two states differ at most in the interrupt flag, the count of
  its readings, the active records and the event log. \<open>sameButIndex r r'\<close>: they differ
  at most in the store of the dedupe index. \<open>findingsAccounted r\<close>: the findings map
  holds as many findings as the steps of the history's records.
\<close>

definition sameStores :: "Runner \<Rightarrow> Runner \<Rightarrow> bool" where
  "sameStores r r' \<longleftrightarrow>
     dependencies r' = dependencies r \<and> findings_map r' = findings_map r \<and>
     executionHistory r' = executionHistory r \<and> dedupeKeys r' = dedupeKeys r \<and>
     mapStore r' = mapStore r \<and> setStore r' = setStore r \<and> nextRef r' = nextRef r \<and>
     batches r' = batches r \<and> runner_config r' = runner_config r \<and> hasRun r' = hasRun r"

definition sameButIndex :: "Runner \<Rightarrow> Runner \<Rightarrow> bool" where
  "sameButIndex r r' \<longleftrightarrow>
     findings_map r' = findings_map r \<and> dependencies r' = dependencies r \<and>
     executionHistory r' = executionHistory r \<and> events r' = events r \<and>
     activeCheckRecords r' = activeCheckRecords r \<and> interruptReason r' = interruptReason r \<and>
     polls r' = polls r \<and> hasRun r' = hasRun r \<and> batches r' = batches r \<and>
     runner_config r' = runner_config r \<and> dedupeKeys r' = dedupeKeys r \<and>
     settled r' = settled r \<and> taskTimedOut r' = taskTimedOut r"


text \<open>
  \<open>tickStep r r'\<close>: what a suspension or a tick may change besides: the promise
  \<^verbatim>\<open>run\<close> returns, when it is pending, may be settled, by the scan timer with the
  findings stored at that moment or with an error. \<open>settledAccounted r\<close>: if that promise
  is settled with kind Interrupted, the reason is the time-out and the findings are as
  many as the steps of the records hold that the history held at some moment; it is never
  settled with kind Finished before the scan ends. \<open>accounted\<close> is both.
\<close>

definition tickStep :: "Runner \<Rightarrow> Runner \<Rightarrow> bool" where
  "tickStep r r' \<longleftrightarrow>
     sameStores r r' \<and>
     (settled r' = settled r \<or>
      settled r = None \<and>
      (settled r' = Some (Interrupted Timeout (flatFindings r)) \<or>
       (\<exists>message. settled r' = Some (ErrorResult message))))"




section \<open>The dedupe index over a scan\<close>

text \<open>
  \<open>indexOk r keys\<close>: the \<^verbatim>\<open>Map\<close> at \<open>keys\<close> is a well-formed object of the store:
  its \<^verbatim>\<open>Set\<close>s have been allocated, no two entries share a \<^verbatim>\<open>Set\<close>, and no key
  occurs twice. \<open>runnerOk\<close> says so of the runner's own index.
\<close>

definition indexOk :: "Runner \<Rightarrow> ref \<Rightarrow> bool" where
  "indexOk r keys \<longleftrightarrow>
     list_all (\<lambda>e. snd e < nextRef r) (mapStore r keys) \<and>
     distinct (map snd (mapStore r keys)) \<and> distinct (map fst (mapStore r keys))"

text \<open>The three tests that \<^verbatim>\<open>isCheckApplicable\<close> makes before it looks at the index.\<close>

definition passesFilters :: "CheckDefinition \<Rightarrow> RuntimeContext \<Rightarrow> bool" where
  "passesFilters check context \<longleftrightarrow>
     (\<exists>s \<in> set (check_severities (metadata check)). s \<in> set (severities (config context))) \<and>
     (case minAggressivity (metadata check) of
        None \<Rightarrow> True | Some m \<Rightarrow> \<not> m > aggressivity (config context)) \<and>
     (case check_when check of None \<Rightarrow> True | Some w \<Rightarrow> w (target context))"

text \<open>
  Over a scan the applicability test is applied to a sequence of checks and contexts, all
  on the same index. \<open>selections cid key tests results\<close> counts the tests of that
  sequence that produce the key \<open>key\<close> for the check id \<open>cid\<close> and report the check
  applicable.
\<close>

fun applicabilityTests :: "(CheckDefinition \<times> RuntimeContext) list \<Rightarrow> ref \<Rightarrow> Runner
    \<Rightarrow> bool list \<times> Runner" where
  "applicabilityTests [] keys r = ([], r)"
| "applicabilityTests ((check, context) # rest) keys r =
     (case isCheckApplicable check context keys r of
        (b, r1) \<Rightarrow>
          (case applicabilityTests rest keys r1 of (bs, r2) \<Rightarrow> (b # bs, r2)))"



text \<open>
  \<open>sameIndex r r'\<close>: the two states have the same index store. \<open>snapshotOk n snap r\<close>:
  the \<^verbatim>\<open>Map\<close> at \<open>snap\<close> and its \<^verbatim>\<open>Set\<close>s were allocated at or after reference
  \<open>n\<close>. \<open>oldStoreSame n r r'\<close>: the objects allocated before \<open>n\<close> are the same in
  the two states. \<open>estimateStep\<close> puts the three together.
\<close>

definition sameIndex :: "Runner \<Rightarrow> Runner \<Rightarrow> bool" where
  "sameIndex r r' \<longleftrightarrow>
     dedupeKeys r' = dedupeKeys r \<and> mapStore r' = mapStore r \<and>
     setStore r' = setStore r \<and> nextRef r' = nextRef r"

definition runnerOk :: "Runner \<Rightarrow> bool" where
  "runnerOk r \<longleftrightarrow> indexOk r (dedupeKeys r) \<and> dedupeKeys r < nextRef r"

definition snapshotOk :: "ref \<Rightarrow> ref \<Rightarrow> Runner \<Rightarrow> bool" where
  "snapshotOk n snap r \<longleftrightarrow>
     n \<le> snap \<and> snap < nextRef r \<and>
     list_all (\<lambda>e. n \<le> snd e \<and> snd e < nextRef r) (mapStore r snap)"

definition oldStoreSame :: "ref \<Rightarrow> Runner \<Rightarrow> Runner \<Rightarrow> bool" where
  "oldStoreSame n r r' \<longleftrightarrow>
     (\<forall>c < n. mapStore r' c = mapStore r c \<and> setStore r' c = setStore r c)"

definition estimateStep :: "ref \<Rightarrow> ref \<Rightarrow> Runner \<Rightarrow> Runner \<Rightarrow> bool" where
  "estimateStep n snap r r' \<longleftrightarrow> snapshotOk n snap r' \<and> oldStoreSame n r r' \<and> sameButIndex r r'"

section \<open>The plan as a layering\<close>



fun batchIndex :: "string list list \<Rightarrow> string \<Rightarrow> nat" where
  "batchIndex [] x = 0"
| "batchIndex (b # bs) x = (if x \<in> set b then 0 else Suc (batchIndex bs x))"



definition idBatches :: "CheckDefinition list list \<Rightarrow> string list list" where
  "idBatches bs = map (map (\<lambda>check. check_id (metadata check))) bs"

section \<open>Example inputs\<close>

text \<open>
  The fixtures of the check's test suite: a GET request for \<^verbatim>\<open>/\<close> on
  \<^verbatim>\<open>example.com\<close> and an HTML response whose policy is \<^verbatim>\<open>script-src *\<close>; a
  configuration that accepts every severity; a host that knows the request and from
  which no call of \<^verbatim>\<open>cancel\<close> arrives.
\<close>

definition exampleRequest :: "string \<Rightarrow> Request" where
  "exampleRequest rid =
     \<lparr> getId = rid, getHost = ''example.com'', getPort = 443, getPath = ''/'',
       getQuery = [], getMethod = ''GET'' \<rparr>"

definition wildcardResponse :: Response where
  "wildcardResponse =
     \<lparr> getCode = 200,
       getHeader = [''content-type'' \<mapsto> [''text/html''],
                    ''content-security-policy'' \<mapsto> [''script-src *'']],
       getBody = ''<html><body>Test</body></html>'' \<rparr>"

definition wildcardTarget :: ScanTarget where
  "wildcardTarget = \<lparr> request = exampleRequest ''3'', response = Some wildcardResponse \<rparr>"

definition exampleConfig :: ScanConfig where
  "exampleConfig =
     \<lparr> aggressivity = 0, severities = [INFO, LOW, MEDIUM, HIGH, CRITICAL], inScopeOnly = False,
       concurrentTargets = 1, concurrentChecks = 1, concurrentRequests = 1,
       requestsDelayMs = 0, scanTimeout = 600, checkTimeout = 60 \<rparr>"

definition quietHost :: "(string \<Rightarrow> ScanTarget option) \<Rightarrow> Host" where
  "quietHost get = \<lparr> requests_get = get, cancelCalls = (\<lambda>n. None) \<rparr>"

text \<open>
  A check with the given id and steps and nothing else set, a target without a response,
  a finding, and three steps: one that throws a \<^verbatim>\<open>ScanRunnableError\<close>, one that is done
  with one finding, one that continues with one finding.
\<close>

definition exampleCheck :: "string \<Rightarrow> (string \<times> StepFn) list \<Rightarrow> CheckDefinition" where
  "exampleCheck cid stps =
     \<lparr> metadata =
         \<lparr> check_id = cid, check_name = cid, check_description = [], check_type = type_passive,
           tags = [], check_severities = [HIGH], check_aggressivity = None,
           minAggressivity = None, dependsOn = None, skipIfFoundBy = None \<rparr>,
       initState = JNull, check_when = None, dedupeKey = None, steps = stps \<rparr>"

definition exampleTarget :: "string \<Rightarrow> ScanTarget" where
  "exampleTarget rid = \<lparr> request = exampleRequest rid, response = None \<rparr>"

definition exampleFinding :: Finding where
  "exampleFinding =
     \<lparr> finding_name = ''Example'', finding_description = ''An example finding'',
       severity = HIGH, correlation_requestID = ''1'', correlation_locations = [] \<rparr>"

definition throwingStep :: StepFn where
  "throwingStep st context = Inl (ThrownScanRunnableError ''Request 9 not found'' REQUEST_NOT_FOUND)"

definition findingStep :: StepFn where
  "findingStep st context = Inr (DoneAction None (Some [exampleFinding]) None)"

definition continuingStep :: "string \<Rightarrow> StepFn" where
  "continuingStep nxt st context = Inr (ContinueWith nxt st (Some [exampleFinding]))"

definition withDependsOn :: "string list \<Rightarrow> CheckDefinition \<Rightarrow> CheckDefinition" where
  "withDependsOn deps check = check \<lparr> metadata := (metadata check) \<lparr> dependsOn := Some deps \<rparr> \<rparr>"

definition withSkipIfFoundBy :: "string \<Rightarrow> CheckDefinition \<Rightarrow> CheckDefinition" where
  "withSkipIfFoundBy other check = check \<lparr> metadata := (metadata check) \<lparr> skipIfFoundBy := Some other \<rparr> \<rparr>"

definition withDedupeKey :: "(ScanTarget \<Rightarrow> string) \<Rightarrow> CheckDefinition \<Rightarrow> CheckDefinition" where
  "withDedupeKey keyOf check = check \<lparr> dedupeKey := Some keyOf \<rparr>"

definition hostKey :: "ScanTarget \<Rightarrow> string" where
  "hostKey tgt = getHost (request tgt)"

text \<open>A runner without a plan in which findings are already stored under one id.\<close>

definition runnerWithFindings :: "string \<Rightarrow> Runner" where
  "runnerWithFindings cid = (initialRunner [] exampleConfig) \<lparr> findings_map := [(cid, [exampleFinding])] \<rparr>"

text \<open>
  A whole scan: the runner is created from the checks, then run once. Two hosts that
  know one and two targets. A check that continues with a finding and then throws; a
  check whose output is the id of its target's request; a check whose output is what it
  reads from the dependency outputs.
\<close>

definition scan :: "nat \<Rightarrow> Host \<Rightarrow> CheckDefinition list \<Rightarrow> ScanConfig \<Rightarrow> string list
    \<Rightarrow> (ScanResult \<times> Runner) option" where
  "scan fuel host checks cfg requestIDs =
     (case createRunnable checks cfg of Inl e \<Rightarrow> None | Inr r \<Rightarrow> run fuel host requestIDs r)"


definition oneTarget :: "string \<Rightarrow> ScanTarget option" where
  "oneTarget = [''1'' \<mapsto> exampleTarget ''1'']"

definition twoTargets :: "string \<Rightarrow> ScanTarget option" where
  "twoTargets = [''1'' \<mapsto> exampleTarget ''1'', ''2'' \<mapsto> exampleTarget ''2'']"

definition flakyCheck :: CheckDefinition where
  "flakyCheck = exampleCheck ''flaky'' [(''first'', continuingStep ''second''), (''second'', throwingStep)]"

definition outputRequestIdStep :: StepFn where
  "outputRequestIdStep st context =
     Inr (DoneAction None None (Some (JStr (getId (request (target context))))))"

definition readDependencyStep :: "string \<Rightarrow> StepFn" where
  "readDependencyStep dep st context = Inr (DoneAction None None (dependencies_get context dep))"

definition depCheck :: CheckDefinition where
  "depCheck = withDedupeKey hostKey (exampleCheck ''dep'' [(''s'', outputRequestIdStep)])"

definition userCheck :: CheckDefinition where
  "userCheck = withDependsOn [''dep''] (exampleCheck ''user'' [(''s'', readDependencyStep ''dep'')])"

text \<open>A runner without a plan in which an output is already stored under one id.\<close>

definition runnerWithOutput :: "string \<Rightarrow> JSON \<Rightarrow> Runner" where
  "runnerWithOutput cid out = (initialRunner [] exampleConfig) \<lparr> dependencies := [cid \<mapsto> out] \<rparr>"

section \<open>The interpreter on the check \<^verbatim>\<open>csp-untrusted-script\<close>\<close>

lemma parse_script_src_wildcard:
  "CSPParser_parse ''script-src *'' =
     \<lparr> directives = [\<lparr> directive_name = ''script-src'', directive_values = [''*''] \<rparr>],
       raw = ''script-src *'' \<rparr>"
  by (simp add: CSPParser_parse_def trim_def isWhiteSpace_def parseDirective_def List.map_filter_def)

lemma step_wildcard:
  assumes "response tgt = Some resp"
    and "includes_str (firstContentType resp) ''text/html''"
    and "getHeader resp ''content-security-policy'' = Some [''script-src *'']"
  shows "checkCspUntrustedScript st \<lparr> target = tgt, config = cfg, dependencies_get = deps \<rparr>
         = Inr (DoneAction (Some st) (Some [wildcardFinding ''script-src *''
               \<lparr> directive_name = ''script-src'', directive_values = [''*''] \<rparr>
               \<lparr> target = tgt, config = cfg, dependencies_get = deps \<rparr>]) None)"
  using assms
  by (simp add: checkCspUntrustedScript_def parse_script_src_wildcard quote_def startsWith_def)

lemma wildcardFinding_severity: "severity (wildcardFinding a b c) = CRITICAL"
  by (simp add: wildcardFinding_def untrustedScriptFinding_def)

lemma suspend_quiet:
  assumes "cancelCalls host (polls r) = None"
  shows "suspend host running r = r \<lparr> polls := polls r + 1 \<rparr>"
  using assms by (simp add: suspend_def)

text \<open>
  Claim C8. For a target whose response has a content type (the first value of the
  header, which is the one the check reads) containing \<^verbatim>\<open>text/html\<close> and a single
  \<^verbatim>\<open>content-security-policy\<close> header with value \<^verbatim>\<open>script-src *\<close>, the step of
  the check \<^verbatim>\<open>csp-untrusted-script\<close> ends with exactly one finding, of severity
  critical; and the interpreter, when no interruption is pending, runs the check's task
  to status done in one tick with that finding as its whole list of findings.
\<close>

theorem csp_untrusted_script_wildcard:
  assumes "response tgt = Some resp"
    and "includes_str (firstContentType resp) ''text/html''"
    and "getHeader resp ''content-security-policy'' = Some [''script-src *'']"
    and "interruptReason r = None" and "cancelCalls host (polls r) = None"
  shows "\<exists>f r'. tickUntilDone (Suc fuel) host (create (cspUntrustedScriptCheck keyOf) tgt cfg) r
                   = Some (Inr (Result status_done (Some [f]) None), r')
               \<and> severity f = CRITICAL
               \<and> checkCspUntrustedScript st \<lparr> target = tgt, config = cfg, dependencies_get = deps \<rparr>
                   = Inr (DoneAction (Some st) (Some [f]) None)"
proof -
  let ?ctx = "\<lambda>d. \<lparr> target = tgt, config = cfg, dependencies_get = d \<rparr>"
  let ?dir = "\<lparr> directive_name = ''script-src'', directive_values = [''*''] \<rparr>"
  let ?f = "\<lambda>d. wildcardFinding ''script-src *'' ?dir (?ctx d)"
  have same: "?f d = ?f deps" for d
    by (simp add: wildcardFinding_def untrustedScriptFinding_def)
  have tt: "task_tick d (create (cspUntrustedScriptCheck keyOf) tgt cfg)
        = (Inr \<lparr> status = status_done, findings = Some [?f deps] \<rparr>,
           (create (cspUntrustedScriptCheck keyOf) tgt cfg) \<lparr> currentState := JObj [], taskOutput := None \<rparr>)" for d
    using step_wildcard[OF assms(1-3), of "JObj []" cfg d] same[of d]
    by (simp add: task_tick_def create_def cspUntrustedScriptCheck_def)
  have "\<exists>r'. tickUntilDone (Suc fuel) host (create (cspUntrustedScriptCheck keyOf) tgt cfg) r
          = Some (Inr (Result status_done (Some [?f deps]) None), r')"
    by (simp add: tickUntilDone_def tick_def getInterruptReason_def assms(4)
          suspend_quiet[OF assms(5)] tt Let_def)
  then show ?thesis
    using step_wildcard[OF assms(1-3), of st cfg deps] wildcardFinding_severity by blast
qed

theorem csp_untrusted_script_wildcard_witness:
  "\<exists>f r'. tickUntilDone (Suc 0) (quietHost Map.empty)
             (create (cspUntrustedScriptCheck (\<lambda>t. getPath (request t))) wildcardTarget exampleConfig)
             (initialRunner [] exampleConfig)
           = Some (Inr (Result status_done (Some [f]) None), r')
         \<and> severity f = CRITICAL
         \<and> checkCspUntrustedScript (JObj [])
              \<lparr> target = wildcardTarget, config = exampleConfig, dependencies_get = Map.empty \<rparr>
            = Inr (DoneAction (Some (JObj [])) (Some [f]) None)"
  using csp_untrusted_script_wildcard[of wildcardTarget wildcardResponse
          "initialRunner [] exampleConfig" "quietHost Map.empty" 0 "\<lambda>t. getPath (request t)"
          exampleConfig "JObj []" Map.empty]
  by (simp add: wildcardTarget_def wildcardResponse_def firstContentType_def startsWith_def
        initialRunner_def quietHost_def)

section \<open>What the parts of the runner leave unchanged\<close>

lemma emit_fields [simp]:
  "interruptReason (emit e r) = interruptReason r"
  "polls (emit e r) = polls r"
  "dependencies (emit e r) = dependencies r"
  "findings_map (emit e r) = findings_map r"
  "executionHistory (emit e r) = executionHistory r"
  "activeCheckRecords (emit e r) = activeCheckRecords r"
  "dedupeKeys (emit e r) = dedupeKeys r"
  "mapStore (emit e r) = mapStore r"
  "setStore (emit e r) = setStore r"
  "nextRef (emit e r) = nextRef r"
  "hasRun (emit e r) = hasRun r"
  "batches (emit e r) = batches r"
  "runner_config (emit e r) = runner_config r"
  "settled (emit e r) = settled r"
  "taskTimedOut (emit e r) = taskTimedOut r"
  "events (emit e r) = events r @ [e]"
  by (simp_all add: emit_def)

lemma onTaskStarted_fields [simp]:
  "interruptReason (onTaskStarted t c r) = interruptReason r"
  "polls (onTaskStarted t c r) = polls r"
  "dependencies (onTaskStarted t c r) = dependencies r"
  "findings_map (onTaskStarted t c r) = findings_map r"
  "executionHistory (onTaskStarted t c r) = executionHistory r"
  "dedupeKeys (onTaskStarted t c r) = dedupeKeys r"
  "mapStore (onTaskStarted t c r) = mapStore r"
  "setStore (onTaskStarted t c r) = setStore r"
  "nextRef (onTaskStarted t c r) = nextRef r"
  "hasRun (onTaskStarted t c r) = hasRun r"
  "batches (onTaskStarted t c r) = batches r"
  "runner_config (onTaskStarted t c r) = runner_config r"
  "settled (onTaskStarted t c r) = settled r"
  "taskTimedOut (onTaskStarted t c r) = None"
  "events (onTaskStarted t c r) = events r @
     [scan_check_started (check_id (metadata (task_check t))) (getId (request (target c)))]"
  "activeCheckRecords (onTaskStarted t c r)
       (activeKey (check_id (metadata (task_check t))) (getId (request (target c))))
     = Some \<lparr> active_checkId = check_id (metadata (task_check t)),
              active_targetRequestId = getId (request (target c)), active_steps = [] \<rparr>"
  by (simp_all add: onTaskStarted_def Let_def)

lemma onTaskFinished_fields [simp]:
  "interruptReason (onTaskFinished t c r) = interruptReason r"
  "polls (onTaskFinished t c r) = polls r"
  "dependencies (onTaskFinished t c r) = dependencies r"
  "findings_map (onTaskFinished t c r) = findings_map r"
  "executionHistory (onTaskFinished t c r) = executionHistory r"
  "activeCheckRecords (onTaskFinished t c r) = activeCheckRecords r"
  "dedupeKeys (onTaskFinished t c r) = dedupeKeys r"
  "mapStore (onTaskFinished t c r) = mapStore r"
  "setStore (onTaskFinished t c r) = setStore r"
  "nextRef (onTaskFinished t c r) = nextRef r"
  "hasRun (onTaskFinished t c r) = hasRun r"
  "batches (onTaskFinished t c r) = batches r"
  "runner_config (onTaskFinished t c r) = runner_config r"
  "settled (onTaskFinished t c r) = settled r"
  "taskTimedOut (onTaskFinished t c r) = taskTimedOut r"
  "events (onTaskFinished t c r) = events r @
     [scan_check_finished (check_id (metadata (task_check t))) (getId (request (target c)))]"
  by (simp_all add: onTaskFinished_def)

lemma findings_get_cong: "findings_map r = findings_map r' \<Longrightarrow> findings_get r = findings_get r'"
  by (auto simp: findings_get_def)

lemma findings_get_onTaskStarted [simp]: "findings_get (onTaskStarted t c r) = findings_get r"
  by (rule findings_get_cong) simp

lemma pushCheckRecord_active:
  assumes "activeCheckRecords r (activeKey cid tid) = Some a"
  shows "executionHistory (pushCheckRecord cid tid st r) = executionHistory r @
           [\<lparr> record_checkId = active_checkId a, record_targetRequestId = active_targetRequestId a,
              record_steps = active_steps a, record_status = st \<rparr>]"
  using assms by (simp add: pushCheckRecord_def)

lemma pushCheckRecord_taskTimedOut [simp]:
  "taskTimedOut (pushCheckRecord cid tid st r) = taskTimedOut r"
  by (simp add: pushCheckRecord_def split: option.splits)

section \<open>Errors thrown by a check\<close>

lemma tick_thrown:
  assumes "interruptReason r = None" and "cancelCalls host (polls r) = None"
    and "task_tick (dependencies r) task = (Inl thrown, task')"
  shows "tick host task r =
           (Inr (case thrown of
                   ThrownScanRunnableError m c \<Rightarrow> Failed (Some []) c m
                 | ThrownError m \<Rightarrow> Failed (Some []) UNKNOWN_CHECK_ERROR m
                 | ThrownValue \<Rightarrow> Failed (Some []) UNKNOWN_CHECK_ERROR ''Unknown error occurred''),
            task', r \<lparr> polls := polls r + 1 \<rparr>)"
  using assms(3)
  by (simp add: tick_def getInterruptReason_def assms(1) suspend_quiet[OF assms(2)] Let_def
        split: Thrown.splits)

text \<open>
  Claim C6. Take a tick that does call \<^verbatim>\<open>task.tick()\<close> (no interruption is pending)
  and in which that call throws. If the thrown value is a \<^verbatim>\<open>ScanRunnableError\<close>, the
  tick returns a result with status failed carrying the error's code and message; if it
  is any other \<^verbatim>\<open>Error\<close>, status failed with code \<^verbatim>\<open>UNKNOWN_CHECK_ERROR\<close> and the
  error's message. No exception leaves the tick: the loop \<^verbatim>\<open>tickUntilDone\<close> returns
  that failure with the findings accumulated so far, the batch executor pushes a failed
  record and the pool goes on with the remaining tasks of the batch.
\<close>

theorem tick_throw_becomes_failed_result:
  assumes quiet: "interruptReason r = None" "cancelCalls host (polls r) = None"
    and thrown: "task_tick (dependencies r) task = (Inl thrown, task')"
    and kind: "thrown = ThrownScanRunnableError message code
               \<or> thrown = ThrownError message \<and> code = UNKNOWN_CHECK_ERROR"
    and dispatched: "\<not> (truthy (skipIfFoundBy (metadata (task_check task)))
                       \<and> findings_get r (check_id (metadata (task_check task))) \<noteq> [])"
  shows "tick host task r = (Inr (Failed (Some []) code message), task', r \<lparr> polls := polls r + 1 \<rparr>)
       \<and> tickLoop (Suc fuel) host task allFindings r
           = Some (Inr (Failed (Some allFindings) code message), r \<lparr> polls := polls r + 1 \<rparr>)
       \<and> (\<exists>r'. processTask (Suc fuel) host context task (onTaskStarted task context r)
                 = Some (Inr (Some (Failed (Some []) code message)), r')
             \<and> record_status (last (executionHistory r')) = failed code message
             \<and> runPool (Suc fuel) host context (task # rest) r
                 = runPool (Suc fuel) host context rest (onTaskFinished task context r'))"
proof (intro conjI)
  show t: "tick host task r = (Inr (Failed (Some []) code message), task', r \<lparr> polls := polls r + 1 \<rparr>)"
    using tick_thrown[OF quiet thrown] kind by auto
  show "tickLoop (Suc fuel) host task allFindings r
           = Some (Inr (Failed (Some allFindings) code message), r \<lparr> polls := polls r + 1 \<rparr>)"
    by (simp add: t)
  let ?r0 = "onTaskStarted task context r"
  let ?cid = "check_id (metadata (task_check task))"
  let ?tid = "getId (request (target context))"
  have t0: "tick host task ?r0 = (Inr (Failed (Some []) code message), task', ?r0 \<lparr> polls := polls ?r0 + 1 \<rparr>)"
    using tick_thrown[of ?r0 host task thrown task'] quiet thrown kind by auto
  let ?r1 = "?r0 \<lparr> polls := polls ?r0 + 1 \<rparr>"
  let ?r2 = "?r1 \<lparr> findings_map := AList.update ?cid (findings_get ?r1 ?cid @ []) (findings_map ?r1) \<rparr>"
  let ?r3 = "emit (scan_check_failed ?cid ?tid code message) (pushCheckRecord ?cid ?tid (failed code message) ?r2)"
  have act: "activeCheckRecords ?r2 (activeKey ?cid ?tid)
      = Some \<lparr> active_checkId = ?cid, active_targetRequestId = ?tid, active_steps = [] \<rparr>"
    by simp
  have p: "processTask (Suc fuel) host context task ?r0 = Some (Inr (Some (Failed (Some []) code message)), ?r3)"
    using dispatched by (simp add: processTask_def tickUntilDone_def t0 Let_def)
  have h: "record_status (last (executionHistory ?r3)) = failed code message"
    using pushCheckRecord_active[OF act, of "failed code message"] by simp
  have "runPool (Suc fuel) host context (task # rest) r
                 = runPool (Suc fuel) host context rest (onTaskFinished task context ?r3)"
    by (simp add: p)
  with p h show "\<exists>r'. processTask (Suc fuel) host context task (onTaskStarted task context r)
                 = Some (Inr (Some (Failed (Some []) code message)), r')
             \<and> record_status (last (executionHistory r')) = failed code message
             \<and> runPool (Suc fuel) host context (task # rest) r
                 = runPool (Suc fuel) host context rest (onTaskFinished task context r')"
    by blast
qed

theorem tick_throw_becomes_failed_result_witness:
  "fst (tick (quietHost Map.empty)
          (create (exampleCheck ''boom'' [(''s'', throwingStep)]) (exampleTarget ''1'') exampleConfig)
          (initialRunner [] exampleConfig))
     = Inr (Failed (Some []) REQUEST_NOT_FOUND ''Request 9 not found'')
   \<and> (\<exists>r'. runPool (Suc 0) (quietHost Map.empty)
              (createRuntimeContext (exampleTarget ''1'') (initialRunner [] exampleConfig))
              [create (exampleCheck ''boom'' [(''s'', throwingStep)]) (exampleTarget ''1'') exampleConfig]
              (initialRunner [] exampleConfig)
            = Some (Inr (), r'))"
proof -
  let ?r = "initialRunner [] exampleConfig"
  let ?h = "quietHost Map.empty"
  let ?task = "create (exampleCheck ''boom'' [(''s'', throwingStep)]) (exampleTarget ''1'') exampleConfig"
  let ?ctx = "createRuntimeContext (exampleTarget ''1'') ?r"
  have q: "interruptReason ?r = None" "cancelCalls ?h (polls ?r) = None"
    by (simp_all add: initialRunner_def quietHost_def)
  have th: "task_tick (dependencies ?r) ?task
              = (Inl (ThrownScanRunnableError ''Request 9 not found'' REQUEST_NOT_FOUND), ?task)"
    by (simp add: task_tick_def create_def exampleCheck_def throwingStep_def)
  have d: "\<not> (truthy (skipIfFoundBy (metadata (task_check ?task)))
              \<and> findings_get ?r (check_id (metadata (task_check ?task))) \<noteq> [])"
    by (simp add: truthy_def create_def exampleCheck_def)
  note w = tick_throw_becomes_failed_result[OF q th disjI1[OF refl] d, of 0 "[]" ?ctx "[]"]
  from w have "fst (tick ?h ?task ?r) = Inr (Failed (Some []) REQUEST_NOT_FOUND ''Request 9 not found'')"
    by simp
  moreover from w obtain r' where
    "runPool (Suc 0) ?h ?ctx [?task] ?r = runPool (Suc 0) ?h ?ctx [] (onTaskFinished ?task ?ctx r')"
    by blast
  then have "\<exists>r'. runPool (Suc 0) ?h ?ctx [?task] ?r = Some (Inr (), r')"
    by simp
  ultimately show ?thesis by blast
qed

section \<open>Unknown dependencies\<close>

lemma checkMap_None: "checkMap checks d = None \<longleftrightarrow> d \<notin> checkIds checks"
  by (force simp: checkMap_def checkIds_def map_of_eq_None_iff)

lemma addDependencies_known:
  "\<forall>d \<in> set deps. cm d \<noteq> None \<Longrightarrow> \<exists>dag'. addDependencies cm cid deps dag = Inr dag'"
  by (induction deps arbitrary: dag) auto

lemma addDependencies_unknown:
  "\<exists>d \<in> set deps. cm d = None \<Longrightarrow>
     \<exists>d \<in> set deps. cm d = None \<and>
        addDependencies cm cid deps dag = Inl (Error (unknownDependencyMessage cid d))"
  by (induction deps arbitrary: dag) auto

lemma addAllDependencies_unknown:
  assumes "\<exists>c \<in> set checks. \<exists>deps. dependsOn (metadata c) = Some deps \<and> (\<exists>d \<in> set deps. cm d = None)"
  shows "\<exists>c \<in> set checks. \<exists>deps. dependsOn (metadata c) = Some deps \<and>
           (\<exists>d \<in> set deps. cm d = None \<and>
              addAllDependencies cm checks dag
                = Inl (Error (unknownDependencyMessage (check_id (metadata c)) d)))"
  using assms
proof (induction checks arbitrary: dag)
  case Nil
  then show ?case by simp
next
  case (Cons check rest)
  show ?case
  proof (cases "dependsOn (metadata check)")
    case None
    with Cons.prems have "\<exists>c \<in> set rest. \<exists>deps. dependsOn (metadata c) = Some deps \<and> (\<exists>d \<in> set deps. cm d = None)"
      by auto
    from Cons.IH[OF this, of dag] None show ?thesis by auto
  next
    case (Some deps)
    show ?thesis
    proof (cases "\<exists>d \<in> set deps. cm d = None")
      case True
      from addDependencies_unknown[OF True, of "check_id (metadata check)" dag] Some
      show ?thesis by auto
    next
      case False
      then obtain dag' where d: "addDependencies cm (check_id (metadata check)) deps dag = Inr dag'"
        using addDependencies_known[of deps cm "check_id (metadata check)" dag] by auto
      from False Some Cons.prems
      have "\<exists>c \<in> set rest. \<exists>deps. dependsOn (metadata c) = Some deps \<and> (\<exists>d \<in> set deps. cm d = None)"
        by auto
      from Cons.IH[OF this, of dag'] Some d show ?thesis by auto
    qed
  qed
qed

text \<open>
  Claim C7, as stated, at a concrete input: the only registered check, \<^verbatim>\<open>b\<close>, depends
  on \<^verbatim>\<open>a\<close>, which is not registered. Plan construction fails, with a plain
  \<^verbatim>\<open>Error\<close> that carries a message and no error code.
\<close>

theorem unknown_dependency_counterexample:
  "getCheckBatches [withDependsOn [''a''] (exampleCheck ''b'' [(''s'', findingStep)])]
     = Inl (Error (''Check 'b' has unknown dependency 'a'' @ [CHR 0x27]))"
  by (simp add: getCheckBatches_def withDependsOn_def exampleCheck_def checkMap_def initDag_def
        quote_def unknownDependencyMessage_def)

text \<open>
  Claim C7, amended. If some check declares in \<^verbatim>\<open>dependsOn\<close> an id that is not the id
  of a registered check, plan construction fails: \<^verbatim>\<open>getCheckBatches\<close> throws a plain
  \<^verbatim>\<open>Error\<close> (no error code) whose message names a check and one of its dependencies
  that is not registered, no plan is returned, and \<^verbatim>\<open>createRunnable\<close> fails with the
  same error.
\<close>

theorem unknown_dependency_plain_error:
  assumes "c \<in> set checks" and "dependsOn (metadata c) = Some deps"
    and "d \<in> set deps" and "d \<notin> checkIds checks"
  shows "\<exists>c' \<in> set checks. \<exists>deps'. dependsOn (metadata c') = Some deps' \<and>
           (\<exists>d' \<in> set deps'. d' \<notin> checkIds checks \<and>
              getCheckBatches checks
                = Inl (Error (unknownDependencyMessage (check_id (metadata c')) d')) \<and>
              createRunnable checks cfg
                = Inl (Error (unknownDependencyMessage (check_id (metadata c')) d')))"
proof -
  from assms have "\<exists>c \<in> set checks. \<exists>deps. dependsOn (metadata c) = Some deps \<and>
      (\<exists>d \<in> set deps. checkMap checks d = None)"
    by (auto simp: checkMap_None)
  from addAllDependencies_unknown[OF this, of "initDag checks"]
  show ?thesis
    by (fastforce simp: getCheckBatches_def createRunnable_def checkMap_None)
qed

theorem unknown_dependency_plain_error_witness:
  "createRunnable [withDependsOn [''a''] (exampleCheck ''b'' [(''s'', findingStep)])] exampleConfig
     = Inl (Error (unknownDependencyMessage ''b'' ''a''))"
proof -
  let ?b = "withDependsOn [''a''] (exampleCheck ''b'' [(''s'', findingStep)])"
  have 1: "?b \<in> set [?b]" by simp
  have 2: "dependsOn (metadata ?b) = Some [''a'']" by (simp add: withDependsOn_def)
  have 3: "''a'' \<in> set [''a'']" by simp
  have 4: "''a'' \<notin> checkIds [?b]" by (simp add: checkIds_def withDependsOn_def exampleCheck_def)
  have 5: "check_id (metadata ?b) = ''b''" by (simp add: withDependsOn_def exampleCheck_def)
  from unknown_dependency_plain_error[OF 1 2 3 4, of exampleConfig] 2 5 show ?thesis by auto
qed

section \<open>A check skipped because of earlier findings\<close>

lemma isCheckApplicable_frame:
  assumes "isCheckApplicable check context keys r = (b, r1)"
  shows "findings_map r1 = findings_map r" "dependencies r1 = dependencies r"
    "executionHistory r1 = executionHistory r" "events r1 = events r"
    "activeCheckRecords r1 = activeCheckRecords r" "interruptReason r1 = interruptReason r"
    "polls r1 = polls r" "hasRun r1 = hasRun r" "batches r1 = batches r"
    "runner_config r1 = runner_config r" "dedupeKeys r1 = dedupeKeys r"
    "settled r1 = settled r" "taskTimedOut r1 = taskTimedOut r"
  using assms
  by (auto simp: isCheckApplicable_def Let_def split: if_splits option.splits prod.splits)

lemma isCheckApplicable_claims:
  assumes "isCheckApplicable check context keys r = (True, r1)" and "dedupeKey check = Some keyOf"
  shows "claimed r1 keys (check_id (metadata check)) (keyOf (target context))"
  using assms
  by (auto simp: isCheckApplicable_def claimed_def Let_def map_add_def
           split: if_splits option.splits prod.splits)

lemma skipped_task:
  assumes "truthy (skipIfFoundBy (metadata (task_check task)))"
    and "findings_get r (check_id (metadata (task_check task))) \<noteq> []"
  shows "runPool fuel host context (task # rest) r
           = runPool fuel host context rest (onTaskFinished task context (onTaskStarted task context r))"
  using assms by (simp add: processTask_def Let_def)

lemma claimed_cong:
  "mapStore r' = mapStore r \<Longrightarrow> setStore r' = setStore r \<Longrightarrow> claimed r' = claimed r"
  by (intro ext) (simp add: claimed_def split: option.splits)

text \<open>
  Claim C10. Take a check with \<^verbatim>\<open>skipIfFoundBy\<close> set that is applicable, so that the
  applicability test has claimed its dedupe key if it has one, and findings already stored
  under the id the skip test inspects, the check's own. As the only check of a batch, and
  as a task at any place in a pool: the runner emits \<^verbatim>\<open>scan:check-started\<close> and
  \<^verbatim>\<open>scan:check-finished\<close> for it and nothing else, appends no record to the execution
  history, leaves the findings map and the dependencies map as they were, and the dedupe
  key stays claimed.
\<close>

theorem skipped_check_frame:
  assumes skip: "truthy (skipIfFoundBy (metadata check))"
    and app: "isCheckApplicable check context (dedupeKeys r) r = (True, r1)"
    and found: "findings_get r (check_id (metadata check)) \<noteq> []"
    and task: "task_check task = check"
    and found': "findings_get s (check_id (metadata check)) \<noteq> []"
  shows "(\<exists>r'. processBatch fuel host [check] context r = Some (Inr (), r')
            \<and> events r' = events r @
                 [scan_check_started (check_id (metadata check)) (getId (request (target context))),
                  scan_check_finished (check_id (metadata check)) (getId (request (target context)))]
            \<and> executionHistory r' = executionHistory r
            \<and> findings_map r' = findings_map r
            \<and> dependencies r' = dependencies r
            \<and> (\<forall>keyOf. dedupeKey check = Some keyOf \<longrightarrow>
                  claimed r' (dedupeKeys r') (check_id (metadata check)) (keyOf (target context))))
       \<and> (\<exists>s'. runPool fuel host context (task # rest) s = runPool fuel host context rest s'
            \<and> events s' = events s @
                 [scan_check_started (check_id (metadata check)) (getId (request (target context))),
                  scan_check_finished (check_id (metadata check)) (getId (request (target context)))]
            \<and> executionHistory s' = executionHistory s
            \<and> findings_map s' = findings_map s
            \<and> dependencies s' = dependencies s
            \<and> dedupeKeys s' = dedupeKeys s \<and> claimed s' = claimed s)"
proof (intro conjI)
  let ?task = "create check (target context) (config context)"
  let ?r' = "onTaskFinished ?task context (onTaskStarted ?task context r1)"
  have tc: "task_check ?task = check" by (simp add: create_def)
  note fr = isCheckApplicable_frame[OF app]
  have f1: "findings_get r1 (check_id (metadata check)) \<noteq> []"
    using found findings_get_cong[OF fr(1)] by simp
  have "runPool fuel host context [?task] r1 = runPool fuel host context [] ?r'"
    using skipped_task[of "?task" r1 fuel host "context" "[]"] skip f1 tc by simp
  then have pb: "processBatch fuel host [check] context r = Some (Inr (), ?r')"
    by (simp add: processBatch_def app)
  have cl: "claimed ?r' (dedupeKeys ?r') (check_id (metadata check)) (keyOf (target context))"
    if "dedupeKey check = Some keyOf" for keyOf
    using isCheckApplicable_claims[OF app that] fr(11)
      claimed_cong[of "?r'" r1] by simp
  show "\<exists>r'. processBatch fuel host [check] context r = Some (Inr (), r')
            \<and> events r' = events r @
                 [scan_check_started (check_id (metadata check)) (getId (request (target context))),
                  scan_check_finished (check_id (metadata check)) (getId (request (target context)))]
            \<and> executionHistory r' = executionHistory r
            \<and> findings_map r' = findings_map r
            \<and> dependencies r' = dependencies r
            \<and> (\<forall>keyOf. dedupeKey check = Some keyOf \<longrightarrow>
                  claimed r' (dedupeKeys r') (check_id (metadata check)) (keyOf (target context)))"
    using pb cl fr tc by (intro exI[of _ "?r'"]) simp
  let ?s' = "onTaskFinished task context (onTaskStarted task context s)"
  have "runPool fuel host context (task # rest) s = runPool fuel host context rest ?s'"
    using skipped_task[of task s fuel host "context" rest] skip found' task by simp
  then show "\<exists>s'. runPool fuel host context (task # rest) s = runPool fuel host context rest s'
            \<and> events s' = events s @
                 [scan_check_started (check_id (metadata check)) (getId (request (target context))),
                  scan_check_finished (check_id (metadata check)) (getId (request (target context)))]
            \<and> executionHistory s' = executionHistory s
            \<and> findings_map s' = findings_map s
            \<and> dependencies s' = dependencies s
            \<and> dedupeKeys s' = dedupeKeys s \<and> claimed s' = claimed s"
    using task claimed_cong[of "?s'" s] by (intro exI[of _ "?s'"]) simp
qed

theorem skipped_check_frame_witness:
  "\<exists>r'. processBatch 0 (quietHost Map.empty)
           [withSkipIfFoundBy ''d'' (withDedupeKey hostKey (exampleCheck ''c'' [(''s'', findingStep)]))]
           (createRuntimeContext (exampleTarget ''1'') (runnerWithFindings ''c''))
           (runnerWithFindings ''c'')
         = Some (Inr (), r')
       \<and> events r' = [scan_check_started ''c'' ''1'', scan_check_finished ''c'' ''1'']
       \<and> executionHistory r' = []
       \<and> findings_map r' = [(''c'', [exampleFinding])]
       \<and> claimed r' (dedupeKeys r') ''c'' ''example.com''"
proof -
  let ?check = "withSkipIfFoundBy ''d'' (withDedupeKey hostKey (exampleCheck ''c'' [(''s'', findingStep)]))"
  let ?r = "runnerWithFindings ''c''"
  let ?ctx = "createRuntimeContext (exampleTarget ''1'') ?r"
  let ?task = "create ?check (target ?ctx) (config ?ctx)"
  have skip: "truthy (skipIfFoundBy (metadata ?check))"
    by (simp add: truthy_def withSkipIfFoundBy_def)
  have "fst (isCheckApplicable ?check ?ctx (dedupeKeys ?r) ?r)"
    by (simp add: isCheckApplicable_def withSkipIfFoundBy_def withDedupeKey_def exampleCheck_def
          createRuntimeContext_def runnerWithFindings_def initialRunner_def exampleConfig_def Let_def)
  then obtain r1 where app: "isCheckApplicable ?check ?ctx (dedupeKeys ?r) ?r = (True, r1)"
    by (cases "isCheckApplicable ?check ?ctx (dedupeKeys ?r) ?r") auto
  have found: "findings_get ?r (check_id (metadata ?check)) \<noteq> []"
    by (simp add: findings_get_def runnerWithFindings_def withSkipIfFoundBy_def withDedupeKey_def
          exampleCheck_def)
  have task: "task_check ?task = ?check" by (simp add: create_def)
  from skipped_check_frame[OF skip app found task found, of 0 "quietHost Map.empty" "[]"]
  obtain r' where "processBatch 0 (quietHost Map.empty) [?check] ?ctx ?r = Some (Inr (), r')"
    and "events r' = events ?r @
           [scan_check_started (check_id (metadata ?check)) (getId (request (target ?ctx))),
            scan_check_finished (check_id (metadata ?check)) (getId (request (target ?ctx)))]"
    and "executionHistory r' = executionHistory ?r" and "findings_map r' = findings_map ?r"
    and "\<forall>keyOf. dedupeKey ?check = Some keyOf \<longrightarrow>
           claimed r' (dedupeKeys r') (check_id (metadata ?check)) (keyOf (target ?ctx))"
    by blast
  then show ?thesis
    by (intro exI[of _ r'])
       (simp add: runnerWithFindings_def initialRunner_def withSkipIfFoundBy_def withDedupeKey_def
          exampleCheck_def createRuntimeContext_def exampleTarget_def exampleRequest_def hostKey_def)
qed

section \<open>Findings returned and findings recorded\<close>

lemmas fixture_defs = exampleCheck_def exampleTarget_def exampleRequest_def exampleConfig_def
  exampleFinding_def quietHost_def withDependsOn_def withSkipIfFoundBy_def withDedupeKey_def
  hostKey_def runnerWithFindings_def initialRunner_def findingStep_def throwingStep_def
  continuingStep_def oneTarget_def twoTargets_def flakyCheck_def outputRequestIdStep_def
  readDependencyStep_def depCheck_def userCheck_def

lemmas engine_defs = processBatch_def processTask_def tickUntilDone_def tick_def task_tick_def
  create_def getInterruptReason_def cancel_def suspend_def scanTimerCallback_def
  taskTimerCallback_def settle_def recordStepExecution_def emitFindings_def
  pushCheckRecord_def findings_get_def truthy_def isCheckApplicable_def createRuntimeContext_def
  onTaskStarted_def onTaskFinished_def emit_def activeKey_def processTarget_def runScan_def
  run_def flatFindings_def Let_def

lemmas planner_defs = getCheckBatches_def checkMap_def initDag_def roots_def inDegree_def
  removeNodes_def

lemma sameStores_refl [simp]: "sameStores r r"
  by (simp add: sameStores_def)

lemma sameStores_trans: "sameStores r r' \<Longrightarrow> sameStores r' r'' \<Longrightarrow> sameStores r r''"
  by (simp add: sameStores_def)

lemma emitFindings_fields [simp]:
  "interruptReason (emitFindings tid cid fs r) = interruptReason r"
  "polls (emitFindings tid cid fs r) = polls r"
  "dependencies (emitFindings tid cid fs r) = dependencies r"
  "findings_map (emitFindings tid cid fs r) = findings_map r"
  "executionHistory (emitFindings tid cid fs r) = executionHistory r"
  "activeCheckRecords (emitFindings tid cid fs r) = activeCheckRecords r"
  "dedupeKeys (emitFindings tid cid fs r) = dedupeKeys r"
  "mapStore (emitFindings tid cid fs r) = mapStore r"
  "setStore (emitFindings tid cid fs r) = setStore r"
  "nextRef (emitFindings tid cid fs r) = nextRef r"
  "hasRun (emitFindings tid cid fs r) = hasRun r"
  "batches (emitFindings tid cid fs r) = batches r"
  "runner_config (emitFindings tid cid fs r) = runner_config r"
  "settled (emitFindings tid cid fs r) = settled r"
  "taskTimedOut (emitFindings tid cid fs r) = taskTimedOut r"
  unfolding emitFindings_def by (induction fs arbitrary: r; simp)+

lemmas suspend_defs = suspend_def cancel_def scanTimerCallback_def taskTimerCallback_def
  settle_def emit_def

lemma suspend_fields [simp]:
  "dependencies (suspend host running r) = dependencies r"
  "findings_map (suspend host running r) = findings_map r"
  "executionHistory (suspend host running r) = executionHistory r"
  "activeCheckRecords (suspend host running r) = activeCheckRecords r"
  "dedupeKeys (suspend host running r) = dedupeKeys r"
  "mapStore (suspend host running r) = mapStore r"
  "setStore (suspend host running r) = setStore r"
  "nextRef (suspend host running r) = nextRef r"
  "hasRun (suspend host running r) = hasRun r"
  "batches (suspend host running r) = batches r"
  "runner_config (suspend host running r) = runner_config r"
  "polls (suspend host running r) = polls r + 1"
  by (simp_all add: suspend_defs split: option.splits CancelCall.splits)

lemma sameStores_tickStep: "sameStores r r' \<Longrightarrow> settled r' = settled r \<Longrightarrow> tickStep r r'"
  by (simp add: tickStep_def)

lemma tickStep_refl [simp]: "tickStep r r"
  by (simp add: tickStep_def)

lemma tickStep_trans: "tickStep r r' \<Longrightarrow> tickStep r' r'' \<Longrightarrow> tickStep r r''"
  by (auto simp: tickStep_def sameStores_def flatFindings_def)

lemma tickStep_sameStores: "tickStep r r' \<Longrightarrow> sameStores r r'"
  by (simp add: tickStep_def)

lemma suspend_tickStep [simp]: "tickStep r (suspend host running r)"
  unfolding tickStep_def
proof
  show "sameStores r (suspend host running r)" by (simp add: sameStores_def)
  show "settled (suspend host running r) = settled r \<or>
        settled r = None \<and>
        (settled (suspend host running r) = Some (Interrupted Timeout (flatFindings r)) \<or>
         (\<exists>message. settled (suspend host running r) = Some (ErrorResult message)))"
    by (cases "settled r")
       (simp_all add: suspend_defs flatFindings_def split: option.splits CancelCall.splits)
qed

lemma recordStepExecution_tickStep [simp]: "tickStep r (recordStepExecution cid tid rec r)"
  by (simp add: recordStepExecution_def tickStep_def sameStores_def split: option.splits)

lemma emitFindings_tickStep [simp]: "tickStep r (emitFindings tid cid fs r)"
  by (simp add: tickStep_def sameStores_def)

lemma task_tick_same_task:
  "task_tick deps task = (x, task') \<Longrightarrow> task_check task' = task_check task \<and> task_target task' = task_target task"
  by (auto simp: task_tick_def split: option.splits sum.splits StepAction.splits)

lemma tick_interrupted:
  "interruptReason r = Some reason \<Longrightarrow>
     tick host task r = (Inl (ScanRunnableInterruptedError reason), task, r)"
  by (simp add: tick_def getInterruptReason_def)

lemma tick_tickStep:
  assumes "tick host task r = (x, task', r')"
  shows "tickStep r r'" and "taskKey task' = taskKey task"
proof -
  let ?r1 = "suspend host (Some task) r"
  obtain y t1 where tt: "task_tick (dependencies r) task = (y, t1)"
    by (cases "task_tick (dependencies r) task")
  note same = task_tick_same_task[OF tt]
  have "tickStep r r' \<and> (task' = task \<or> task' = t1)"
  proof (cases "interruptReason r")
    case (Some reason)
    with assms show ?thesis by (simp add: tick_interrupted)
  next
    case None
    have "tickStep ?r1 r' \<and> (task' = task \<or> task' = t1)"
      using assms tt None
      by (auto simp: tick_def getInterruptReason_def Let_def
               intro: tickStep_trans[OF emitFindings_tickStep recordStepExecution_tickStep]
               split: option.splits sum.splits Thrown.splits)
    then show ?thesis using tickStep_trans[OF suspend_tickStep] by blast
  qed
  then show "tickStep r r'" and "taskKey task' = taskKey task"
    using same by (auto simp: taskKey_def)
qed


lemma emitFindings_events_length:
  "events (emitFindings tid cid fs r) = events r @ map (scan_finding tid cid) fs"
  unfolding emitFindings_def by (induction fs arbitrary: r) simp_all


lemma tickLoop_tickStep:
  "tickLoop fuel host task acc r = Some (x, r') \<Longrightarrow> tickStep r r'"
proof (induction fuel arbitrary: task acc r)
  case 0
  then show ?case by simp
next
  case (Suc fuel)
  obtain y t1 r1 where t: "tick host task r = (y, t1, r1)"
    by (cases "tick host task r") auto
  note s1 = tick_tickStep(1)[OF t]
  show ?case
  proof (cases y)
    case (Inl e)
    with Suc.prems t s1 show ?thesis by simp
  next
    case (Inr result)
    show ?thesis
    proof (cases result)
      case (Result st fs out)
      show ?thesis
      proof (cases st)
        case status_done
        with Suc.prems t s1 Inr Result show ?thesis by (simp add: Let_def)
      next
        case status_continue
        with Suc.prems t Inr Result
        have "tickLoop fuel host t1 (acc @ (case fs of None \<Rightarrow> [] | Some fs \<Rightarrow> fs)) r1 = Some (x, r')"
          by (simp add: Let_def)
        from Suc.IH[OF this] s1 show ?thesis by (rule tickStep_trans[rotated])
      qed
    next
      case (Failed fs c m)
      with Suc.prems t s1 Inr show ?thesis by (simp add: Let_def)
    qed
  qed
qed

lemma tickLoop_sameStores:
  "tickLoop fuel host task acc r = Some (x, r') \<Longrightarrow> sameStores r r'"
  using tickLoop_tickStep tickStep_sameStores by blast





lemma historyFindingsCount_append [simp]:
  "historyFindingsCount (h @ [rec]) = historyFindingsCount h + stepsFindingsCount (record_steps rec)"
  by (simp add: historyFindingsCount_def)

lemma pushCheckRecord_fields [simp]:
  "findings_map (pushCheckRecord cid tid st r) = findings_map r"
  "dependencies (pushCheckRecord cid tid st r) = dependencies r"
  "dedupeKeys (pushCheckRecord cid tid st r) = dedupeKeys r"
  "mapStore (pushCheckRecord cid tid st r) = mapStore r"
  "setStore (pushCheckRecord cid tid st r) = setStore r"
  "nextRef (pushCheckRecord cid tid st r) = nextRef r"
  "batches (pushCheckRecord cid tid st r) = batches r"
  "runner_config (pushCheckRecord cid tid st r) = runner_config r"
  "hasRun (pushCheckRecord cid tid st r) = hasRun r"
  "events (pushCheckRecord cid tid st r) = events r"
  "settled (pushCheckRecord cid tid st r) = settled r"
  "interruptReason (pushCheckRecord cid tid st r) = interruptReason r"
  "polls (pushCheckRecord cid tid st r) = polls r"
  by (simp_all add: pushCheckRecord_def split: option.splits)





lemma isCheckApplicable_sameButIndex:
  "isCheckApplicable check context keys r = (b, r1) \<Longrightarrow> sameButIndex r r1"
  using isCheckApplicable_frame[of check "context" keys r b r1] by (simp add: sameButIndex_def)












section \<open>Dependency outputs\<close>

lemma processTask_done_dependencies:
  assumes t: "tickUntilDone fuel host task r = Some (Inr (Result status_done fs out), r1)"
    and ns: "\<not> (truthy (skipIfFoundBy (metadata (task_check task)))
               \<and> findings_get r (check_id (metadata (task_check task))) \<noteq> [])"
  shows "\<exists>r2. processTask fuel host context task r
                 = Some (Inr (Some (Result status_done fs out)), r2)
              \<and> dependencies r2 = (dependencies r)(check_id (metadata (task_check task)) := out)"
proof -
  have "sameStores r r1"
    using t tickLoop_sameStores by (simp add: tickUntilDone_def)
  then have d: "dependencies r1 = dependencies r" by (simp add: sameStores_def)
  from t ns d show ?thesis
    by (auto simp: processTask_def Let_def split: if_splits option.splits)
qed

text \<open>
  Claim C9. The outputs of dependencies live in one map keyed by check id only. Whenever
  an execution of a check, for whatever target, ends with status done, the entry of the
  map under the check's id becomes that execution's output, whatever was there. A later
  \<^verbatim>\<open>dependencies.get\<close> reads this map, so it returns the output of the most recent
  completed execution, which need not be the one for the caller's own target: in the
  scan of two targets below, \<^verbatim>\<open>dep\<close> runs for target 1 only (its dedupe key is the
  host, which the targets share), and \<^verbatim>\<open>user\<close>, running for target 2, reads and
  returns the output \<^verbatim>\<open>dep\<close> produced for target 1.
\<close>

theorem dependency_output_keyed_by_check_id:
  assumes "tickUntilDone fuel host task r = Some (Inr (Result status_done fs out), r1)"
    and "\<not> (truthy (skipIfFoundBy (metadata (task_check task)))
           \<and> findings_get r (check_id (metadata (task_check task))) \<noteq> [])"
  shows "(\<exists>r2. processTask fuel host context task r
                 = Some (Inr (Some (Result status_done fs out)), r2)
              \<and> dependencies r2 = (dependencies r)(check_id (metadata (task_check task)) := out))
       \<and> map_option (\<lambda>(res, r'). map (\<lambda>rec. (record_checkId rec, record_targetRequestId rec,
                                                  record_status rec)) (executionHistory r'))
            (scan (Suc 0) (quietHost twoTargets) [depCheck, userCheck] exampleConfig [''1'', ''2''])
          = Some [(''dep'', ''1'', completed (Some (JStr ''1''))),
                  (''user'', ''1'', completed (Some (JStr ''1''))),
                  (''user'', ''2'', completed (Some (JStr ''1'')))]"
proof
  show "\<exists>r2. processTask fuel host context task r
                 = Some (Inr (Some (Result status_done fs out)), r2)
              \<and> dependencies r2 = (dependencies r)(check_id (metadata (task_check task)) := out)"
    using processTask_done_dependencies[OF assms] .
  have plan: "getCheckBatches [depCheck, userCheck] = Inr [[depCheck], [userCheck]]"
    by (simp add: planner_defs depCheck_def userCheck_def withDedupeKey_def withDependsOn_def
          exampleCheck_def)
  show "map_option (\<lambda>(res, r'). map (\<lambda>rec. (record_checkId rec, record_targetRequestId rec,
                                                  record_status rec)) (executionHistory r'))
            (scan (Suc 0) (quietHost twoTargets) [depCheck, userCheck] exampleConfig [''1'', ''2''])
          = Some [(''dep'', ''1'', completed (Some (JStr ''1''))),
                  (''user'', ''1'', completed (Some (JStr ''1''))),
                  (''user'', ''2'', completed (Some (JStr ''1'')))]"
    by (simp add: scan_def createRunnable_def plan) (simp add: fixture_defs engine_defs)
qed

theorem dependency_output_keyed_by_check_id_witness:
  "\<exists>r2. processTask (Suc 0) (quietHost twoTargets)
           (createRuntimeContext (exampleTarget ''2'') (runnerWithOutput ''dep'' (JStr ''1'')))
           (create depCheck (exampleTarget ''2'') exampleConfig)
           (runnerWithOutput ''dep'' (JStr ''1''))
         = Some (Inr (Some (Result status_done (Some []) (Some (JStr ''2'')))), r2)
       \<and> dependencies r2 ''dep'' = Some (JStr ''2'')"
proof -
  let ?r = "runnerWithOutput ''dep'' (JStr ''1'')"
  let ?task = "create depCheck (exampleTarget ''2'') exampleConfig"
  let ?ctx = "createRuntimeContext (exampleTarget ''2'') ?r"
  have "\<exists>r1. tickUntilDone (Suc 0) (quietHost twoTargets) ?task ?r
           = Some (Inr (Result status_done (Some []) (Some (JStr ''2''))), r1)"
    by (simp add: fixture_defs engine_defs runnerWithOutput_def)
  then obtain r1 where t: "tickUntilDone (Suc 0) (quietHost twoTargets) ?task ?r
           = Some (Inr (Result status_done (Some []) (Some (JStr ''2''))), r1)"
    by blast
  have ns: "\<not> (truthy (skipIfFoundBy (metadata (task_check ?task)))
           \<and> findings_get ?r (check_id (metadata (task_check ?task))) \<noteq> [])"
    by (simp add: fixture_defs engine_defs)
  have cid: "check_id (metadata (task_check ?task)) = ''dep''"
    by (simp add: fixture_defs engine_defs)
  from dependency_output_keyed_by_check_id[OF t ns, of ?ctx, THEN conjunct1] cid
  show ?thesis by auto
qed

section \<open>The skip test\<close>

text \<open>
  Claim C2, at two concrete inputs. The check \<^verbatim>\<open>c\<close> has \<^verbatim>\<open>skipIfFoundBy\<close> set to
  \<^verbatim>\<open>d\<close>. With a finding stored under \<^verbatim>\<open>d\<close> and none under \<^verbatim>\<open>c\<close>, the check is
  not skipped: it runs, its finding is stored and a record is pushed. With a finding
  stored under \<^verbatim>\<open>c\<close> and none under \<^verbatim>\<open>d\<close>, it is skipped. The test reads the
  findings under the check's own id, not under the id \<^verbatim>\<open>skipIfFoundBy\<close> refers to.
\<close>

theorem skipIfFoundBy_reads_own_id:
  "map_option (\<lambda>(x, r'). (x, findings_map r', map record_checkId (executionHistory r')))
     (processBatch (Suc 0) (quietHost Map.empty)
        [withSkipIfFoundBy ''d'' (exampleCheck ''c'' [(''s'', findingStep)])]
        (createRuntimeContext (exampleTarget ''1'') (runnerWithFindings ''d''))
        (runnerWithFindings ''d''))
   = Some (Inr (), [(''d'', [exampleFinding]), (''c'', [exampleFinding])], [''c''])
   \<and>
   map_option (\<lambda>(x, r'). (x, findings_map r', map record_checkId (executionHistory r')))
     (processBatch (Suc 0) (quietHost Map.empty)
        [withSkipIfFoundBy ''d'' (exampleCheck ''c'' [(''s'', findingStep)])]
        (createRuntimeContext (exampleTarget ''1'') (runnerWithFindings ''c''))
        (runnerWithFindings ''c''))
   = Some (Inr (), [(''c'', [exampleFinding])], [])"
  by (simp add: fixture_defs engine_defs)


section \<open>Selection at most once per dedupe key\<close>

lemma isCheckApplicable_unfold:
  "isCheckApplicable check context keys r =
     (if \<not> passesFilters check context then (False, r)
      else case dedupeKey check of
             None \<Rightarrow> (True, r)
           | Some keyOf \<Rightarrow>
               (case map_of (mapStore r keys) (check_id (metadata check)) of
                  Some c \<Rightarrow>
                    if keyOf (target context) \<in> set (setStore r c) then (False, r)
                    else (True, r \<lparr> setStore := (setStore r)(c := setStore r c @ [keyOf (target context)]) \<rparr>)
                | None \<Rightarrow>
                    (True, r \<lparr> setStore := (setStore r)(nextRef r := [keyOf (target context)]),
                               mapStore := (mapStore r)
                                 (keys := mapStore r keys @ [(check_id (metadata check), nextRef r)]),
                               nextRef := nextRef r + 1 \<rparr>)))"
  by (auto simp: isCheckApplicable_def passesFilters_def Let_def split: option.splits)






lemma applicabilityTests_length:
  "applicabilityTests tests keys r = (bs, r') \<Longrightarrow> length bs = length tests"
  by (induction tests arbitrary: r bs) (auto split: prod.splits)





lemma sameIndex_refl [simp]: "sameIndex r r"
  by (simp add: sameIndex_def)









section \<open>Estimation works on a snapshot\<close>

lemma estimateStep_refl: "snapshotOk n snap r \<Longrightarrow> estimateStep n snap r r"
  by (simp add: estimateStep_def oldStoreSame_def sameButIndex_def)

lemma estimateStep_trans:
  "estimateStep n snap r r' \<Longrightarrow> estimateStep n snap r' r'' \<Longrightarrow> estimateStep n snap r r''"
  by (auto simp: estimateStep_def oldStoreSame_def sameButIndex_def)

lemma map_of_snapshot_bound:
  "list_all (\<lambda>e. n \<le> snd e \<and> snd e < m) al \<Longrightarrow> map_of al k = Some c \<Longrightarrow> n \<le> c \<and> c < m"
  by (induction al) (auto split: if_splits)

lemma isCheckApplicable_estimateStep:
  assumes ok: "snapshotOk n snap r" and a: "isCheckApplicable check context snap r = (b, r')"
  shows "estimateStep n snap r r'"
proof -
  have sb: "sameButIndex r r'" using a by (rule isCheckApplicable_sameButIndex)
  have bound: "n \<le> c \<and> c < nextRef r" if "map_of (mapStore r snap) k = Some c" for k c
    using ok that map_of_snapshot_bound[of n "nextRef r" "mapStore r snap" k c]
    by (simp add: snapshotOk_def)
  from a ok have "snapshotOk n snap r' \<and> oldStoreSame n r r'"
    by (auto simp: isCheckApplicable_unfold snapshotOk_def oldStoreSame_def list_all_iff
             dest: bound split: if_splits option.splits) fastforce+
  with sb show ?thesis by (simp add: estimateStep_def)
qed


lemma estimateStep_snapshotOk: "estimateStep n snap r r' \<Longrightarrow> snapshotOk n snap r'"
  by (simp add: estimateStep_def)

lemma filterApplicable_estimateStep:
  "snapshotOk n snap r \<Longrightarrow> filterApplicable batch context snap r = (kept, r') \<Longrightarrow>
     estimateStep n snap r r'"
proof (induction batch arbitrary: r kept r')
  case Nil
  then show ?case by (simp add: estimateStep_refl)
next
  case (Cons check rest)
  obtain b ra where a: "isCheckApplicable check context snap r = (b, ra)"
    by (cases "isCheckApplicable check context snap r")
  obtain k rb where f: "filterApplicable rest context snap ra = (k, rb)"
    by (cases "filterApplicable rest context snap ra")
  from Cons.prems(2) a f have "r' = rb" by simp
  moreover note s1 = isCheckApplicable_estimateStep[OF Cons.prems(1) a]
  moreover note Cons.IH[OF estimateStep_snapshotOk[OF s1] f]
  ultimately show ?case using estimateStep_trans by blast
qed

lemma filterBatches_estimateStep:
  "snapshotOk n snap r \<Longrightarrow> filterBatches bs context snap r = (kept, r') \<Longrightarrow>
     estimateStep n snap r r'"
proof (induction bs arbitrary: r kept r')
  case Nil
  then show ?case by (simp add: estimateStep_refl)
next
  case (Cons batch rest)
  obtain k1 ra where a: "filterApplicable batch context snap r = (k1, ra)"
    by (cases "filterApplicable batch context snap r")
  obtain k2 rb where f: "filterBatches rest context snap ra = (k2, rb)"
    by (cases "filterBatches rest context snap ra")
  from Cons.prems(2) a f have "r' = rb" by simp
  moreover note s1 = filterApplicable_estimateStep[OF Cons.prems(1) a]
  moreover note Cons.IH[OF estimateStep_snapshotOk[OF s1] f]
  ultimately show ?case using estimateStep_trans by blast
qed

lemma estimateLoop_estimateStep:
  "snapshotOk n snap r \<Longrightarrow> estimateLoop host requestIDs snap tot r = (res, r') \<Longrightarrow>
     estimateStep n snap r r'"
proof (induction requestIDs arbitrary: r tot res r')
  case Nil
  then show ?case by (simp add: estimateStep_refl)
next
  case (Cons requestID rest)
  show ?case
  proof (cases "requests_get host requestID")
    case None
    with Cons.prems show ?thesis by (simp add: estimateStep_refl)
  next
    case (Some tgt)
    obtain tasks ra where
      a: "filterBatches (batches r) (createRuntimeContext tgt r) snap r = (tasks, ra)"
      by (cases "filterBatches (batches r) (createRuntimeContext tgt r) snap r")
    note s1 = filterBatches_estimateStep[OF Cons.prems(1) a]
    from Cons.prems(2) Some a
    have "estimateLoop host rest snap (tot + length (concat tasks)) ra = (res, r')"
      by simp
    from Cons.IH[OF estimateStep_snapshotOk[OF s1] this] s1 show ?thesis
      using estimateStep_trans by blast
  qed
qed

lemma list_all_update:
  "list_all P al \<Longrightarrow> P (k, v) \<Longrightarrow> list_all P (AList.update k v al)"
  by (induction al) auto

lemma copyEntries_estimateStep:
  "snapshotOk n snap r \<Longrightarrow> estimateStep n snap r (copyEntries entries snap r)"
proof (induction entries arbitrary: r)
  case Nil
  then show ?case by (simp add: estimateStep_refl)
next
  case (Cons e rest)
  obtain checkId keySet where e: "e = (checkId, keySet)" by (cases e)
  let ?r1 = "r \<lparr> setStore := (setStore r)(nextRef r := setStore r keySet),
                 mapStore := (mapStore r)(snap := AList.update checkId (nextRef r) (mapStore r snap)),
                 nextRef := nextRef r + 1 \<rparr>"
  have "list_all (\<lambda>e. n \<le> snd e \<and> snd e < nextRef r + 1) (mapStore r snap)"
    using Cons.prems by (auto simp: snapshotOk_def list_all_iff)
  then have "list_all (\<lambda>e. n \<le> snd e \<and> snd e < nextRef r + 1)
               (AList.update checkId (nextRef r) (mapStore r snap))"
    using Cons.prems by (intro list_all_update) (auto simp: snapshotOk_def)
  then have ok1: "snapshotOk n snap ?r1"
    using Cons.prems by (simp add: snapshotOk_def)
  have "estimateStep n snap r ?r1"
    using Cons.prems ok1
    by (auto simp: estimateStep_def oldStoreSame_def sameButIndex_def snapshotOk_def)
  with Cons.IH[OF ok1] e show ?case
    using estimateStep_trans by auto
qed


lemma createDedupeKeysSnapshot_estimateStep:
  assumes "createDedupeKeysSnapshot r = (snap, r1)"
  shows "estimateStep (nextRef r) snap r r1"
proof -
  let ?r0 = "r \<lparr> mapStore := (mapStore r)(nextRef r := []), nextRef := nextRef r + 1 \<rparr>"
  have ok0: "snapshotOk (nextRef r) (nextRef r) ?r0"
    by (simp add: snapshotOk_def)
  have "estimateStep (nextRef r) (nextRef r) r ?r0"
    using ok0 by (simp add: estimateStep_def oldStoreSame_def sameButIndex_def)
  moreover have "estimateStep (nextRef r) (nextRef r) ?r0
                   (copyEntries (mapStore r (dedupeKeys r)) (nextRef r) ?r0)"
    using ok0 by (rule copyEntries_estimateStep)
  moreover from assms have "snap = nextRef r"
    and "r1 = copyEntries (mapStore r (dedupeKeys r)) (nextRef r) ?r0"
    by (auto simp: createDedupeKeysSnapshot_def Let_def)
  ultimately show ?thesis using estimateStep_trans by blast
qed

lemma estimate_estimateStep:
  assumes "estimate host requestIDs r = (res, r')"
  shows "\<exists>snap. estimateStep (nextRef r) snap r r'"
proof -
  obtain snap r1 where c: "createDedupeKeysSnapshot r = (snap, r1)"
    by (cases "createDedupeKeysSnapshot r")
  note s1 = createDedupeKeysSnapshot_estimateStep[OF c]
  from assms c have "estimateLoop host requestIDs snap 0 r1 = (res, r')"
    by (simp add: estimate_def)
  from estimateLoop_estimateStep[OF estimateStep_snapshotOk[OF s1] this] s1
  show ?thesis using estimateStep_trans by blast
qed

lemma snapshotOk_nextRef: "snapshotOk n snap r \<Longrightarrow> n < nextRef r"
  by (simp add: snapshotOk_def)

text \<open>
  Claim C5. On a runner whose index is well formed, \<^verbatim>\<open>estimate\<close>, for every list of
  request ids and whatever it returns, leaves the runner's dedupe-key state unchanged: it
  works on a snapshot in which the \<^verbatim>\<open>Map\<close> and every \<^verbatim>\<open>Set\<close> are new objects, so
  the runner's \<^verbatim>\<open>Map\<close> and each of its \<^verbatim>\<open>Set\<close>s hold what they held, the same pairs
  are claimed, nothing else of the runner's state changes, and every applicability test
  on the runner's index answers as it would have answered without the estimate.
\<close>

theorem estimate_leaves_dedupe_state:
  assumes ok: "runnerOk r" and est: "estimate host requestIDs r = (res, r')"
  shows "sameButIndex r r'
       \<and> mapStore r' (dedupeKeys r') = mapStore r (dedupeKeys r)
       \<and> list_all (\<lambda>e. setStore r' (snd e) = setStore r (snd e)) (mapStore r (dedupeKeys r))
       \<and> claimed r' (dedupeKeys r') = claimed r (dedupeKeys r)
       \<and> runnerOk r'
       \<and> (\<forall>check context. fst (isCheckApplicable check context (dedupeKeys r') r')
                            = fst (isCheckApplicable check context (dedupeKeys r) r))"
proof -
  from estimate_estimateStep[OF est] obtain snap where
    st: "estimateStep (nextRef r) snap r r'" by blast
  then have sb: "sameButIndex r r'" and old: "oldStoreSame (nextRef r) r r'"
    and nr: "nextRef r < nextRef r'"
    using snapshotOk_nextRef by (auto simp: estimateStep_def)
  have dk: "dedupeKeys r' = dedupeKeys r" using sb by (simp add: sameButIndex_def)
  have m0: "mapStore r' (dedupeKeys r) = mapStore r (dedupeKeys r)"
    using old ok by (simp add: oldStoreSame_def runnerOk_def)
  have m: "mapStore r' (dedupeKeys r') = mapStore r (dedupeKeys r)"
    using m0 dk by simp
  have sets: "setStore r' c = setStore r c" if "c \<in> snd ` set (mapStore r (dedupeKeys r))" for c
    using old ok that by (auto simp: oldStoreSame_def runnerOk_def indexOk_def list_all_iff)
  have la: "list_all (\<lambda>e. setStore r' (snd e) = setStore r (snd e)) (mapStore r (dedupeKeys r))"
    using sets by (auto simp: list_all_iff)
  have mo: "map_of (mapStore r (dedupeKeys r)) k = Some c \<Longrightarrow> setStore r' c = setStore r c" for k c
    using sets[of c] by (force dest: map_of_SomeD)
  have cl: "claimed r' (dedupeKeys r') = claimed r (dedupeKeys r)"
    using mo by (intro ext) (auto simp: claimed_def m0 dk split: option.splits)
  have ok': "runnerOk r'"
    using ok nr m dk by (auto simp: runnerOk_def indexOk_def list_all_iff)
  have ap: "fst (isCheckApplicable check context (dedupeKeys r') r')
              = fst (isCheckApplicable check context (dedupeKeys r) r)" for check "context"
    using mo by (auto simp: isCheckApplicable_unfold m0 dk split: option.splits)
  from sb m la cl ok' ap show ?thesis by blast
qed


theorem estimate_leaves_dedupe_state_witness:
  "fst (estimate (quietHost twoTargets) [''1'', ''2'']
          (initialRunner [[depCheck], [userCheck]] exampleConfig)) = EstimateSuccess 3
   \<and> mapStore (snd (estimate (quietHost twoTargets) [''1'', ''2'']
                      (initialRunner [[depCheck], [userCheck]] exampleConfig))) 0 = []
   \<and> runnerOk (snd (estimate (quietHost twoTargets) [''1'', ''2'']
                      (initialRunner [[depCheck], [userCheck]] exampleConfig)))"
proof -
  let ?r = "initialRunner [[depCheck], [userCheck]] exampleConfig"
  obtain res r' where e: "estimate (quietHost twoTargets) [''1'', ''2''] ?r = (res, r')"
    by (cases "estimate (quietHost twoTargets) [''1'', ''2''] ?r")
  have ok: "runnerOk ?r" by (simp add: runnerOk_def indexOk_def initialRunner_def)
  have 0: "dedupeKeys ?r = 0" "mapStore ?r 0 = []" by (simp_all add: initialRunner_def)
  have "fst (estimate (quietHost twoTargets) [''1'', ''2''] ?r) = EstimateSuccess 3"
    by (simp add: estimate_def createDedupeKeysSnapshot_def fixture_defs engine_defs)
  moreover from estimate_leaves_dedupe_state[OF ok e] 0
  have "mapStore r' 0 = []" and "runnerOk r'"
    by (auto simp: sameButIndex_def)
  ultimately show ?thesis using e by simp
qed

section \<open>The batches of the plan\<close>









lemma batchIndex_Cons_notin: "x \<notin> set b \<Longrightarrow> batchIndex (b # bs) x = Suc (batchIndex bs x)"
  by simp



















end
